theory Spec2Isabelle
  imports Complex_Main "HOL-Library.Sublist"
begin

section \<open>JavaScript strings and numbers\<close>

text \<open>
  A JavaScript string is modelled as a \<^typ>\<open>string\<close>: one list element per code unit, so
  that \<open>length\<close> is the source's \<open>.length\<close>. The literals of the source are ASCII.
\<close>

text \<open>\<open>String.prototype.includes\<close>: the pattern occurs as a contiguous run.\<close>

fun js_includes :: "string \<Rightarrow> string \<Rightarrow> bool" where
  "js_includes [] pat = (pat = [])"
| "js_includes (c # cs) pat = (prefix pat (c # cs) \<or> js_includes cs pat)"

text \<open>\<open>String.prototype.startsWith\<close>.\<close>

definition starts_with :: "string \<Rightarrow> string \<Rightarrow> bool" where
  "starts_with s pat = prefix pat s"

text \<open>\<open>x || ""\<close> on an optional string: \<open>undefined\<close> and the empty string both give \<open>""\<close>.\<close>

definition or_empty :: "string option \<Rightarrow> string" where
  "or_empty m = (case m of None \<Rightarrow> [] | Some s \<Rightarrow> s)"

text \<open>Truthiness of an optional string: defined and not empty.\<close>

definition truthy_str :: "string option \<Rightarrow> bool" where
  "truthy_str m = (case m of None \<Rightarrow> False | Some s \<Rightarrow> s \<noteq> [])"

text \<open>
  \<open>Math.ceil(n / 4)\<close> on a length \<open>n\<close>. Lengths are far below \<open>2^53\<close>, where the
  floating-point quotient and its ceiling are exact.
\<close>

definition ceil_quarter :: "nat \<Rightarrow> nat" where
  "ceil_quarter n = nat \<lceil>real n / 4\<rceil>"

text \<open>A length inside a template literal: its decimal digits.\<close>

definition digit :: "nat \<Rightarrow> char" where
  "digit d = ''0123456789'' ! d"

function decimal :: "nat \<Rightarrow> string" where
  "decimal n = (if n < 10 then [digit n] else decimal (n div 10) @ [digit (n mod 10)])"
  by pat_completeness auto
termination
  by (relation "measure (\<lambda>n. n)") auto

declare decimal.simps [simp del]

section \<open>The Anthropic Messages endpoint (\<open>POST /v1/messages\<close>)\<close>

definition MAX_RETRIES :: nat where
  "MAX_RETRIES = 5"

text \<open>
  The updates yielded by \<open>streamChat\<close>, read by the handler through \<open>update.type\<close>,
  \<open>update.message\<close> and \<open>update.content\<close>. \<open>ChatOther\<close> is an update of any other type,
  which the handler ignores.
\<close>

datatype chat_update =
    ChatError "string option"
  | ChatToken "string option"
  | ChatDone
  | ChatOther

text \<open>
  What one iteration of the retry loop receives from outside the handler: the answer of
  \<open>getRandomToken\<close> (the id of the token row, or none), the updates the generator
  \<open>streamChat\<close> yields for that token, and the message of the exception it raises after
  them, if it raises one.
\<close>

record chat_attempt =
  random_token :: "string option"
  updates :: "chat_update list"
  throws :: "string option"

text \<open>
  The server-sent events of the streaming branch. Each constructor stands for the string
  built by the source function of the same name; \<open>event_name\<close> is its \<open>event:\<close> line.
\<close>

datatype sse =
    evtMessageStart string string
  | evtContentBlockStart
  | evtPing
  | evtDelta string
  | evtContentBlockStop
  | evtMessageDelta nat
  | evtMessageStop

fun event_name :: "sse \<Rightarrow> string" where
  "event_name (evtMessageStart msgId model) = ''message_start''"
| "event_name evtContentBlockStart = ''content_block_start''"
| "event_name evtPing = ''ping''"
| "event_name (evtDelta text) = ''content_block_delta''"
| "event_name evtContentBlockStop = ''content_block_stop''"
| "event_name (evtMessageDelta outputTokens) = ''message_delta''"
| "event_name evtMessageStop = ''message_stop''"

text \<open>The marker text \<open>[Error: ${msg}]\<close>.\<close>

definition error_marker :: "string \<Rightarrow> string" where
  "error_marker msg = ''[Error: '' @ msg @ '']''"

text \<open>The rate-limit tests of the handler: on an error update, and on a caught exception.\<close>

definition rate_limited_update :: "string \<Rightarrow> bool" where
  "rate_limited_update msg =
     (js_includes msg ''429'' \<or> js_includes msg ''rate'' \<or> js_includes msg ''401'')"

definition rate_limited_exception :: "string \<Rightarrow> bool" where
  "rate_limited_exception message = (js_includes message ''429'' \<or> js_includes message ''rate'')"

text \<open>
  The two variables of every retry loop of the repository, those that both branches of this
  handler share, and those of each branch.
\<close>

record retry_state =
  excludedTokenIds :: "string list"
  retryCount :: nat

record call_state = retry_state +
  success :: bool

record stream_state = call_state +
  pushed :: "sse list"
  charCount :: nat

record nonstream_state = call_state +
  fullContent :: string
  lastError :: string

text \<open>How a \<open>for await\<close> loop was left: by \<open>break\<close>, or because the generator was drained.\<close>

datatype 'a flow = Broke 'a | Drained 'a

subsection \<open>Streaming branch\<close>

text \<open>
  The \<open>for await\<close> loop over the updates of one token. The boolean is \<open>tokenDone\<close>.
\<close>

fun stream_for_await :: "string \<Rightarrow> chat_update list \<Rightarrow> stream_state \<Rightarrow> (stream_state \<times> bool) flow" where
  "stream_for_await tid [] st = Drained (st, False)"
| "stream_for_await tid (ChatError m # us) st =
     (let msg = or_empty m in
      if rate_limited_update msg
      then Broke (st\<lparr>excludedTokenIds := excludedTokenIds st @ [tid],
                     retryCount := retryCount st + 1\<rparr>, False)
      else Broke (st\<lparr>pushed := pushed st @ [evtDelta (error_marker msg)]\<rparr>, True))"
| "stream_for_await tid (ChatToken c # us) st =
     (if truthy_str c
      then stream_for_await tid us
             (st\<lparr>charCount := charCount st + length (or_empty c),
                  pushed := pushed st @ [evtDelta (or_empty c)]\<rparr>)
      else stream_for_await tid us st)"
| "stream_for_await tid (ChatDone # us) st = Broke (st\<lparr>success := True\<rparr>, True)"
| "stream_for_await tid (ChatOther # us) st = stream_for_await tid us st"

text \<open>
  The body of the \<open>while\<close> loop once a token was found: the \<open>try\<close> block, its \<open>catch\<close>, and
  the test \<open>success || tokenDone\<close>. The boolean of the result says that the loop is left.
\<close>

definition stream_try :: "string \<Rightarrow> chat_attempt \<Rightarrow> stream_state \<Rightarrow> stream_state \<times> bool" where
  "stream_try tid a st =
     (case stream_for_await tid (updates a) st of
        Broke (st', tokenDone) \<Rightarrow> (st', success st' \<or> tokenDone)
      | Drained (st', tokenDone) \<Rightarrow>
          (case throws a of
             None \<Rightarrow> (st', success st' \<or> tokenDone)
           | Some message \<Rightarrow>
               if rate_limited_exception message
               then (st'\<lparr>excludedTokenIds := excludedTokenIds st' @ [tid],
                         retryCount := retryCount st' + 1\<rparr>, False)
               else (st'\<lparr>pushed := pushed st' @ [evtDelta (error_marker message)]\<rparr>, True)))"

text \<open>
  One pass through the body of \<open>while (retryCount < MAX_RETRIES)\<close>: the token lookup, the
  \<open>break\<close> when there is none, and otherwise the \<open>try\<close> block with what follows it.
\<close>

definition stream_iteration :: "chat_attempt \<Rightarrow> stream_state \<Rightarrow> stream_state \<times> bool" where
  "stream_iteration a st =
     (case random_token a of
        None \<Rightarrow>
          (let errMsg = (if length (excludedTokenIds st) > 0
                         then ''All tokens rate limited'' else ''No available tokens'')
           in (st\<lparr>pushed := pushed st @ [evtDelta (error_marker errMsg)]\<rparr>, True))
      | Some tid \<Rightarrow> stream_try tid a st)"

text \<open>
  The loop, run against the attempts the outside world offers, in order. \<open>None\<close>: the loop
  wants another attempt and the list has none left.
\<close>

fun stream_while :: "chat_attempt list \<Rightarrow> stream_state \<Rightarrow> stream_state option" where
  "stream_while script st =
     (if retryCount st < MAX_RETRIES then
        (case script of
           [] \<Rightarrow> None
         | a # rest \<Rightarrow>
             (case stream_iteration a st of
                (st', leave) \<Rightarrow> if leave then Some st' else stream_while rest st'))
      else Some st)"

text \<open>
  What the streaming branch has done when \<open>controller.close()\<close> is reached: the events
  enqueued, the calls of \<open>incrementApiKeyUsage\<close> (by key id), and the final variables.
  \<open>apiKeyInfo\<close> is the id of \<open>c.get("apiKeyInfo")\<close>, if the context has one.
\<close>

record stream_result =
  events :: "sse list"
  usage_calls :: "string list"
  final :: stream_state

definition stream_start :: "string \<Rightarrow> string \<Rightarrow> stream_state" where
  "stream_start msgId rawModel =
     \<lparr>excludedTokenIds = [], retryCount = 0, success = False,
      pushed = [evtMessageStart msgId rawModel, evtContentBlockStart, evtPing],
      charCount = 0\<rparr>"

definition messages_stream ::
  "string option \<Rightarrow> string \<Rightarrow> string \<Rightarrow> chat_attempt list \<Rightarrow> stream_result option" where
  "messages_stream apiKeyInfo msgId rawModel script =
     (case stream_while script (stream_start msgId rawModel) of
        None \<Rightarrow> None
      | Some st \<Rightarrow>
          Some \<lparr>events = pushed st @
                   [evtContentBlockStop, evtMessageDelta (ceil_quarter (charCount st)),
                    evtMessageStop],
                usage_calls = (if success st
                               then (case apiKeyInfo of None \<Rightarrow> [] | Some keyId \<Rightarrow> [keyId])
                               else []),
                final = st\<rparr>)"

subsection \<open>Non-streaming branch\<close>

text \<open>
  A JSON response: its status and its body, either \<open>{type: "error", error: {type, message}}\<close>
  or the assembled message (id, model, text of the one content block, and the two usage
  numbers; the other fields are constants).
\<close>

datatype json_body =
    ErrorBody string string
  | MessageBody string string string nat nat

record http_response =
  status :: nat
  body :: json_body

definition error_response :: "nat \<Rightarrow> string \<Rightarrow> string \<Rightarrow> http_response" where
  "error_response code ty message = \<lparr>status = code, body = ErrorBody ty message\<rparr>"

text \<open>
  The \<open>for await\<close> loop of the non-streaming branch: \<open>Inl\<close> is a \<open>return\<close> from inside it,
  with the variables at that moment.
\<close>

fun nonstream_for_await ::
  "string \<Rightarrow> chat_update list \<Rightarrow> nonstream_state \<Rightarrow>
     (http_response \<times> nonstream_state) + nonstream_state flow" where
  "nonstream_for_await tid [] st = Inr (Drained st)"
| "nonstream_for_await tid (ChatError m # us) st =
     (let msg = or_empty m in
      if rate_limited_update msg
      then Inr (Broke (st\<lparr>excludedTokenIds := excludedTokenIds st @ [tid],
                          retryCount := retryCount st + 1,
                          lastError := msg\<rparr>))
      else Inl (error_response 500 ''api_error'' msg, st))"
| "nonstream_for_await tid (ChatToken c # us) st =
     (if truthy_str c
      then nonstream_for_await tid us (st\<lparr>fullContent := fullContent st @ or_empty c\<rparr>)
      else nonstream_for_await tid us st)"
| "nonstream_for_await tid (ChatDone # us) st = Inr (Broke (st\<lparr>success := True\<rparr>))"
| "nonstream_for_await tid (ChatOther # us) st = nonstream_for_await tid us st"

text \<open>
  One pass through the body of the loop. \<open>Inl\<close>: the handler returned; \<open>Inr\<close>: the variables
  after the pass and whether the loop is left (\<open>if (success) break\<close>).
\<close>

definition nonstream_iteration ::
  "chat_attempt \<Rightarrow> nonstream_state \<Rightarrow> (http_response \<times> nonstream_state) + (nonstream_state \<times> bool)" where
  "nonstream_iteration a st =
     (case random_token a of
        None \<Rightarrow>
          (let msg = (if length (excludedTokenIds st) > 0
                      then ''All tokens rate limited (tried '' @ decimal (length (excludedTokenIds st)) @ '')''
                      else ''No available tokens'')
           in Inl (error_response 529 ''overloaded_error'' msg, st))
      | Some tid \<Rightarrow>
          (case nonstream_for_await tid (updates a) st of
             Inl r \<Rightarrow> Inl r
           | Inr (Broke st') \<Rightarrow> Inr (st', success st')
           | Inr (Drained st') \<Rightarrow>
               (case throws a of
                  None \<Rightarrow> Inr (st', success st')
                | Some message \<Rightarrow>
                    if rate_limited_exception message
                    then Inr (st'\<lparr>excludedTokenIds := excludedTokenIds st' @ [tid],
                                  retryCount := retryCount st' + 1,
                                  lastError := message\<rparr>, False)
                    else Inl (error_response 500 ''api_error'' message, st'))))"

fun nonstream_while ::
  "chat_attempt list \<Rightarrow> nonstream_state \<Rightarrow> ((http_response \<times> nonstream_state) + nonstream_state) option" where
  "nonstream_while script st =
     (if retryCount st < MAX_RETRIES then
        (case script of
           [] \<Rightarrow> None
         | a # rest \<Rightarrow>
             (case nonstream_iteration a st of
                Inl r \<Rightarrow> Some (Inl r)
              | Inr (st', leave) \<Rightarrow> if leave then Some (Inr st') else nonstream_while rest st'))
      else Some (Inr st))"

text \<open>
  What the non-streaming branch has done when it returns: the response, the calls of
  \<open>incrementApiKeyUsage\<close>, and the variables at the \<open>return\<close>.
\<close>

record nonstream_result =
  response :: http_response
  usage_calls_n :: "string list"
  final_n :: nonstream_state

definition nonstream_start :: nonstream_state where
  "nonstream_start =
     \<lparr>excludedTokenIds = [], retryCount = 0, success = False, fullContent = [], lastError = []\<rparr>"

definition messages_nonstream ::
  "string option \<Rightarrow> string \<Rightarrow> string \<Rightarrow> chat_attempt list \<Rightarrow> nonstream_result option" where
  "messages_nonstream apiKeyInfo msgId rawModel script =
     (case nonstream_while script nonstream_start of
        None \<Rightarrow> None
      | Some (Inl (r, st)) \<Rightarrow> Some \<lparr>response = r, usage_calls_n = [], final_n = st\<rparr>
      | Some (Inr st) \<Rightarrow>
          if \<not> success st
          then Some \<lparr>response = error_response 529 ''overloaded_error''
                                   (if lastError st \<noteq> [] then lastError st else ''Failed after retries''),
                     usage_calls_n = [], final_n = st\<rparr>
          else Some \<lparr>response = \<lparr>status = 200,
                                   body = MessageBody msgId rawModel (fullContent st) 0
                                            (ceil_quarter (length (fullContent st)))\<rparr>,
                     usage_calls_n = (case apiKeyInfo of None \<Rightarrow> [] | Some keyId \<Rightarrow> [keyId]),
                     final_n = st\<rparr>)"

section \<open>Image generation with retry (\<open>POST /api/imagine/generate\<close>)\<close>

text \<open>
  The fields of the request body that steer the loop: \<open>count\<close> (10 when absent; modelled
  as an integer) and the pinned \<open>token_id\<close>. The prompt and the other fields are handed to
  \<open>generateImages\<close> unchanged.
\<close>

record generate_request =
  count :: int
  token_id :: "string option"

text \<open>
  The updates of \<open>generateImages\<close> as the handler reads them: an error with its message, an
  image with its \<open>job_id\<close> and URL, a progress update with its \<open>status\<close>, done, or any other.
\<close>

datatype image_update =
    ImgError string
  | ImgImage string string
  | ImgProgress string
  | ImgDone
  | ImgOther

text \<open>
  What one iteration receives from outside: the answers of \<open>getToken\<close> and of
  \<open>getRandomToken\<close> (token ids), the updates of the generator and the message of the
  exception it raises after them, if any.
\<close>

record store_answers =
  pinned_answer :: "string option"
  random_answer :: "string option"

record image_attempt = store_answers +
  image_updates :: "image_update list"
  image_throws :: "string option"

text \<open>A call of the token store with its answer.\<close>

datatype store_lookup =
    GetToken string "string option"
  | GetRandomToken "string list" "string option"

fun lookup_answer :: "store_lookup \<Rightarrow> string option" where
  "lookup_answer (GetToken tid ans) = ans"
| "lookup_answer (GetRandomToken excluded ans) = ans"

text \<open>
  The server-sent events of the handler, by event name and payload: \<open>error\<close> with its
  message, \<open>info\<close> with its message, \<open>image\<close> with job id and URL, the \<open>progress\<close> event
  of status \<open>collecting\<close> with job id, \<open>completed_count\<close> and \<open>target_count\<close> (its
  floating-point \<open>percentage\<close> is left out), a forwarded \<open>progress\<close> update with its
  status, and \<open>done\<close>. The last four are those of the image edit handler below: \<open>image\<close>
  with URL and index (its \<open>image_src\<close> is the proxy path for the same URL), \<open>progress\<close> of
  status \<open>collecting\<close> with \<open>completed_count\<close> and \<open>target_count\<close>, \<open>progress\<close> of
  another status, and \<open>debug\<close>.
\<close>

datatype imagine_event =
    ev_error string
  | ev_info string
  | ev_image string string
  | ev_collecting string nat int
  | ev_progress string
  | ev_done
  | ev_edit_image string nat
  | ev_edit_collecting nat int
  | ev_stage string
  | ev_debug

record generate_state = retry_state +
  totalCollected :: nat
  written :: "imagine_event list"
  closed :: bool
  lookups :: "store_lookup list"

definition rate_limited_image :: "string \<Rightarrow> bool" where
  "rate_limited_image msg = (js_includes msg ''429'' \<or> js_includes msg ''Rate limited'')"

definition switching_info :: "nat \<Rightarrow> string" where
  "switching_info n =
     ''Token rate limited, switching to another (attempt '' @ decimal n @ ''/''
       @ decimal MAX_RETRIES @ '')''"

text \<open>Excluding the current token: the push, the increment and the \<open>info\<close> event.\<close>

definition exclude_token :: "string \<Rightarrow> generate_state \<Rightarrow> generate_state" where
  "exclude_token tid st =
     st\<lparr>excludedTokenIds := excludedTokenIds st @ [tid],
        retryCount := retryCount st + 1,
        written := written st @ [ev_info (switching_info (retryCount st + 1))]\<rparr>"

text \<open>How the \<open>for await\<close> loop of this handler is left: by \<open>return\<close>, by \<open>break\<close>, or drained.\<close>

datatype 'a exit = Returned 'a | Broken 'a | Passed 'a

fun generate_for_await ::
  "int \<Rightarrow> string \<Rightarrow> image_update list \<Rightarrow> generate_state \<Rightarrow> generate_state exit" where
  "generate_for_await targetCount tid [] st = Passed st"
| "generate_for_await targetCount tid (ImgError msg # us) st =
     (if rate_limited_image msg then Broken (exclude_token tid st)
      else Returned (st\<lparr>written := written st @ [ev_error msg], closed := True\<rparr>))"
| "generate_for_await targetCount tid (ImgImage job url # us) st =
     generate_for_await targetCount tid us
       (st\<lparr>totalCollected := totalCollected st + 1,
            written := written st @
              [ev_image job url, ev_collecting job (totalCollected st + 1) targetCount]\<rparr>)"
| "generate_for_await targetCount tid (ImgProgress stat # us) st =
     (if stat \<noteq> ''collecting''
      then generate_for_await targetCount tid us (st\<lparr>written := written st @ [ev_progress stat]\<rparr>)
      else generate_for_await targetCount tid us st)"
| "generate_for_await targetCount tid (ImgDone # us) st =
     (if int (totalCollected st) \<ge> targetCount
      then Returned (st\<lparr>written := written st @ [ev_done], closed := True\<rparr>)
      else Broken st)"
| "generate_for_await targetCount tid (ImgOther # us) st =
     generate_for_await targetCount tid us st"

text \<open>
  The token of an iteration: the pinned one on the first attempt, else a random one that
  is not excluded. Every call of the store is recorded.
\<close>

definition select_token ::
  "string option \<Rightarrow> image_attempt \<Rightarrow> generate_state \<Rightarrow> string option \<times> generate_state" where
  "select_token pinned a st =
     (let (token, st1) =
            (if truthy_str pinned \<and> retryCount st = 0
             then (pinned_answer a,
                   st\<lparr>lookups := lookups st @ [GetToken (or_empty pinned) (pinned_answer a)]\<rparr>)
             else (None, st))
      in case token of
           Some tid \<Rightarrow> (Some tid, st1)
         | None \<Rightarrow>
             (random_answer a,
              st1\<lparr>lookups := lookups st1 @
                      [GetRandomToken (excludedTokenIds st1) (random_answer a)]\<rparr>))"

text \<open>
  One pass through the body of the \<open>while\<close> loop. \<open>Returned\<close>: the task returned from
  inside; \<open>Broken\<close>: the loop is left by \<open>break\<close>; \<open>Passed\<close>: the pass is over and the
  loop condition is tested again.
\<close>

definition generate_iteration ::
  "generate_request \<Rightarrow> image_attempt \<Rightarrow> generate_state \<Rightarrow> generate_state exit" where
  "generate_iteration req a st =
     (case select_token (token_id req) a st of
        (None, st1) \<Rightarrow>
          Broken (st1\<lparr>written := written st1 @
                  [ev_error (if length (excludedTokenIds st1) > 0
                             then ''All tokens rate limited (tried ''
                                    @ decimal (length (excludedTokenIds st1)) @ '' tokens)''
                             else ''No available tokens. Please import tokens first.'')]\<rparr>)
      | (Some tid, st1) \<Rightarrow>
          (case generate_for_await (count req) tid (image_updates a) st1 of
             Returned st2 \<Rightarrow> Returned st2
           | Broken st2 \<Rightarrow> Passed st2
           | Passed st2 \<Rightarrow>
               (case image_throws a of
                  None \<Rightarrow> Passed st2
                | Some message \<Rightarrow>
                    if rate_limited_image message then Passed (exclude_token tid st2)
                    else Broken (st2\<lparr>written := written st2 @ [ev_error message]\<rparr>))))"

text \<open>After the loop: the final \<open>done\<close> event when something was collected, and the close.\<close>

definition generate_finish :: "generate_state \<Rightarrow> generate_state" where
  "generate_finish st =
     (if totalCollected st > 0
      then st\<lparr>written := written st @ [ev_done], closed := True\<rparr>
      else st\<lparr>closed := True\<rparr>)"

fun generate_while ::
  "generate_request \<Rightarrow> image_attempt list \<Rightarrow> generate_state \<Rightarrow> generate_state option" where
  "generate_while req script st =
     (if retryCount st < MAX_RETRIES \<and> int (totalCollected st) < count req then
        (case script of
           [] \<Rightarrow> None
         | a # rest \<Rightarrow>
             (case generate_iteration req a st of
                Returned st' \<Rightarrow> Some st'
              | Broken st' \<Rightarrow> Some (generate_finish st')
              | Passed st' \<Rightarrow> generate_while req rest st'))
      else Some (generate_finish st))"

definition generate_start :: generate_state where
  "generate_start =
     \<lparr>excludedTokenIds = [], retryCount = 0, totalCollected = 0, written = [],
      closed = False, lookups = []\<rparr>"

text \<open>The background task of the handler: the variables when it ends.\<close>

definition imagine_generate ::
  "generate_request \<Rightarrow> image_attempt list \<Rightarrow> generate_state option" where
  "imagine_generate req script = generate_while req script generate_start"

section \<open>The image edit stream (\<open>streamImageEdit\<close>)\<close>

subsection \<open>Parsed JSON\<close>

text \<open>
  A value as \<open>JSON.parse\<close> returns it. An object lists its keys in the order of
  \<open>Object.keys\<close>, each key once. \<open>JSON.parse\<close> itself is a parameter of the model: a
  function from a line to the parsed value, or to \<open>None\<close> where it raises.
\<close>

datatype json =
    JNull
  | JBool bool
  | JNum rat
  | JStr string
  | JArr "json list"
  | JObj "(string \<times> json) list"

text \<open>Reading a property that only an object can have; \<open>None\<close> is \<open>undefined\<close>.\<close>

fun get_field :: "json \<Rightarrow> string \<Rightarrow> json option" where
  "get_field (JObj kvs) k = map_of kvs k"
| "get_field j k = None"

text \<open>Optional chaining \<open>v?.k\<close>.\<close>

fun opt_field :: "json option \<Rightarrow> string \<Rightarrow> json option" where
  "opt_field None k = None"
| "opt_field (Some JNull) k = None"
| "opt_field (Some j) k = get_field j k"

fun truthy :: "json option \<Rightarrow> bool" where
  "truthy None = False"
| "truthy (Some JNull) = False"
| "truthy (Some (JBool b)) = b"
| "truthy (Some (JNum n)) = (n \<noteq> 0)"
| "truthy (Some (JStr s)) = (s \<noteq> [])"
| "truthy (Some (JArr xs)) = True"
| "truthy (Some (JObj kvs)) = True"

text \<open>\<open>v || 0\<close>.\<close>

definition or_zero :: "json option \<Rightarrow> json" where
  "or_zero v = (case v of None \<Rightarrow> JNum 0 | Some j \<Rightarrow> if truthy v then j else JNum 0)"

text \<open>\<open>[...new Set(urls)]\<close>: the first occurrence of each element, in order.\<close>

fun dedupe_into :: "string list \<Rightarrow> string list \<Rightarrow> string list" where
  "dedupe_into seen [] = seen"
| "dedupe_into seen (x # xs) = dedupe_into (if x \<in> set seen then seen else seen @ [x]) xs"

subsection \<open>Collecting image URLs (current version of the file)\<close>

definition targetKeys :: "string list" where
  "targetKeys =
     [''generatedImageUrls'', ''imageUrls'', ''imageURLs'', ''imageEditUris'', ''fileUris'']"

text \<open>An item of an array under a target key: a URL, a relative URI made absolute, or nothing.\<close>

fun target_item :: "json \<Rightarrow> string list" where
  "target_item (JStr item) =
     (if length item > 0 then
        (if starts_with item ''http'' then [item]
         else if starts_with item ''/'' \<or> starts_with item ''users/''
         then [''https://assets.grok.com/'' @ (if starts_with item ''/'' then tl item else item)]
         else [])
      else [])"
| "target_item j = []"

fun collectImages :: "json \<Rightarrow> string list"
  and collect_items :: "json list \<Rightarrow> string list"
  and collect_fields :: "(string \<times> json) list \<Rightarrow> string list" where
  "collectImages (JArr items) = collect_items items"
| "collectImages (JObj kvs) = dedupe_into [] (collect_fields kvs)"
| "collectImages j = []"
| "collect_items [] = []"
| "collect_items (item # items) = collectImages item @ collect_items items"
| "collect_fields [] = []"
| "collect_fields ((key, val) # kvs) =
     (case val of
        JArr items \<Rightarrow>
          if key \<in> set targetKeys then concat (map target_item items) else collectImages val
      | JObj members \<Rightarrow> collectImages val
      | _ \<Rightarrow> [])
     @ collect_fields kvs"

subsection \<open>Extracting image URLs (earlier version of the file)\<close>

text \<open>The strings of an array that start with \<open>http\<close>; nothing when it is not an array.\<close>

fun http_item :: "json \<Rightarrow> string list" where
  "http_item (JStr u) = (if starts_with u ''http'' then [u] else [])"
| "http_item j = []"

fun http_strings :: "json option \<Rightarrow> string list" where
  "http_strings (Some (JArr items)) = concat (map http_item items)"
| "http_strings v = []"

text \<open>
  The \<open>url\<close> and \<open>imageUrl\<close> of a generated asset. Reading a property of \<open>null\<close> raises
  a \<open>TypeError\<close>: \<open>None\<close>.
\<close>

fun string_field :: "json \<Rightarrow> string \<Rightarrow> string list" where
  "string_field a k = (case get_field a k of Some (JStr s) \<Rightarrow> [s] | _ \<Rightarrow> [])"

fun asset_urls :: "json list \<Rightarrow> string list option" where
  "asset_urls [] = Some []"
| "asset_urls (JNull # assets) = None"
| "asset_urls (a # assets) =
     (case asset_urls assets of
        None \<Rightarrow> None
      | Some urls \<Rightarrow> Some (string_field a ''url'' @ string_field a ''imageUrl'' @ urls))"

text \<open>
  The URLs that the regular expression of the fallback finds in a text field. The matcher
  \<open>String.prototype.match\<close> with that expression is a parameter \<open>matches\<close>.
\<close>

definition text_urls :: "(string \<Rightarrow> string list) \<Rightarrow> json \<Rightarrow> string \<Rightarrow> string list" where
  "text_urls matches modelResponse k =
     (case get_field modelResponse k of Some (JStr s) \<Rightarrow> matches s | _ \<Rightarrow> [])"

definition extractImageUrls :: "(string \<Rightarrow> string list) \<Rightarrow> json \<Rightarrow> string list option" where
  "extractImageUrls matches modelResponse =
     (case (case get_field modelResponse ''generatedAssets'' of
              Some (JArr assets) \<Rightarrow> asset_urls assets
            | _ \<Rightarrow> Some []) of
        None \<Rightarrow> None
      | Some assetUrls \<Rightarrow>
          Some (dedupe_into []
            (http_strings (get_field modelResponse ''generatedImageEditUrls'')
             @ assetUrls
             @ http_strings (get_field modelResponse ''imageAttachments'')
             @ text_urls matches modelResponse ''outputText''
             @ text_urls matches modelResponse ''message''
             @ text_urls matches modelResponse ''text'')))"

subsection \<open>Lines\<close>

definition newline :: char where
  "newline = CHR 0x0A"

text \<open>\<open>s.split("\n")\<close>: never empty; the last piece is what follows the last newline.\<close>

fun split_nl :: "string \<Rightarrow> string list" where
  "split_nl [] = [[]]"
| "split_nl (c # cs) =
     (if c = newline then [] # split_nl cs
      else (c # hd (split_nl cs)) # tl (split_nl cs))"

text \<open>\<open>!line.trim()\<close>: the line has white space only.\<close>

definition js_space :: "char \<Rightarrow> bool" where
  "js_space c = (c \<in> set [CHR 0x09, CHR 0x0A, CHR 0x0B, CHR 0x0C, CHR 0x0D, CHR 0x20, CHR 0xA0])"

definition is_blank :: "string \<Rightarrow> bool" where
  "is_blank line = list_all js_space line"

subsection \<open>The updates and the variables of the decode loop\<close>

text \<open>
  The places where the current version yields a \<open>debug\<close> update. The message text is not
  modelled, only the numbers and strings it is built from.
\<close>

datatype debug_note =
    NoteImageRefs
  | NoteAttachments
  | NoteOverride
  | NoteStatus nat
  | NoteErrorBody
  | NoteKeys nat
  | NoteField string
  | NoteFound nat
  | NoteFirstUrl string
  | NoteDirectUrl string
  | NoteUnparseable nat string
  | NoteStreamDone nat nat

datatype edit_update =
    EditProgress json json
  | EditImage string nat
  | EditError string
  | EditDone
  | EditDebug debug_note

record decode_state =
  collectedUrls :: "string list"
  lineCount :: nat
  yielded :: "edit_update list"

definition yield :: "edit_update \<Rightarrow> decode_state \<Rightarrow> decode_state" where
  "yield u st = st\<lparr>yielded := yielded st @ [u]\<rparr>"

text \<open>
  The loop \<open>for (const url of urls) if (!collectedUrls.includes(url)) \<dots>\<close>; \<open>noted\<close> says
  that a \<open>debug\<close> update is yielded before each image, as the second loop of the current
  version does.
\<close>

fun emit_new :: "bool \<Rightarrow> string list \<Rightarrow> decode_state \<Rightarrow> decode_state" where
  "emit_new noted [] st = st"
| "emit_new noted (url # urls) st =
     emit_new noted urls
       (if url \<in> set (collectedUrls st) then st
        else st\<lparr>collectedUrls := collectedUrls st @ [url],
                yielded := yielded st
                  @ (if noted then [EditDebug (NoteDirectUrl url)] else [])
                  @ [EditImage url (length (collectedUrls st))]\<rparr>)"

subsection \<open>One line, earlier version\<close>

text \<open>What follows \<open>if (!resp) continue\<close> for a truthy \<open>resp\<close>.\<close>

definition handle_response_v1 ::
  "(string \<Rightarrow> string list) \<Rightarrow> json \<Rightarrow> decode_state \<Rightarrow> decode_state" where
  "handle_response_v1 matches r st =
     (let imgProgress = get_field r ''streamingImageGenerationResponse'' in
      if truthy imgProgress
      then yield (EditProgress (or_zero (opt_field imgProgress ''imageIndex''))
                               (or_zero (opt_field imgProgress ''progress''))) st
      else
        (let modelResponse = get_field r ''modelResponse'' in
         case modelResponse of
           None \<Rightarrow> st
         | Some m \<Rightarrow>
             if truthy modelResponse
             then (case extractImageUrls matches m of
                     None \<Rightarrow> st
                   | Some urls \<Rightarrow> emit_new False urls st)
             else st))"

text \<open>
  The body of \<open>for (const line of lines)\<close>. A line that \<open>JSON.parse\<close> rejects, or on which
  \<open>extractImageUrls\<close> raises, ends in the empty \<open>catch\<close>.
\<close>

definition handle_line_v1 ::
  "(string \<Rightarrow> json option) \<Rightarrow> (string \<Rightarrow> string list) \<Rightarrow> string \<Rightarrow> decode_state \<Rightarrow> decode_state" where
  "handle_line_v1 parse matches line st =
     (if is_blank line then st
      else
        (case parse line of
           None \<Rightarrow> st
         | Some data \<Rightarrow>
             (let resp = opt_field (opt_field (Some data) ''result'') ''response'' in
              case resp of
                None \<Rightarrow> st
              | Some r \<Rightarrow> if \<not> truthy resp then st else handle_response_v1 matches r st)))"

subsection \<open>One line, current version\<close>

text \<open>The \<open>debug\<close> updates for the four fields of \<open>modelResponse\<close> that are set.\<close>

definition field_notes :: "json \<Rightarrow> edit_update list" where
  "field_notes m =
     concat (map (\<lambda>k. case get_field m k of
                          None \<Rightarrow> []
                        | Some JNull \<Rightarrow> []
                        | Some v \<Rightarrow> [EditDebug (NoteField k)])
               [''generatedImageUrls'', ''imageEditUris'', ''fileUris'', ''imageUrls''])"

text \<open>The block \<open>if (modelResponse) { \<dots> }\<close>.\<close>

definition model_response_block :: "json \<Rightarrow> decode_state \<Rightarrow> decode_state" where
  "model_response_block m st =
     (let urls = collectImages m;
          st1 = st\<lparr>yielded := yielded st @ field_notes m
                         @ [EditDebug (NoteFound (length urls))]
                         @ (case urls of [] \<Rightarrow> [] | u # us \<Rightarrow> [EditDebug (NoteFirstUrl u)])\<rparr>
      in emit_new False urls st1)"

text \<open>What follows \<open>if (!resp) continue\<close> for a truthy \<open>resp\<close>, in this version.\<close>

definition handle_response :: "json \<Rightarrow> decode_state \<Rightarrow> decode_state" where
  "handle_response r st =
     (let imgProgress = get_field r ''streamingImageGenerationResponse'' in
      if truthy imgProgress
      then yield (EditProgress (or_zero (opt_field imgProgress ''imageIndex''))
                               (or_zero (opt_field imgProgress ''progress''))) st
      else
        (let modelResponse = get_field r ''modelResponse'';
             st1 = (case modelResponse of
                      None \<Rightarrow> st
                    | Some m \<Rightarrow> if truthy modelResponse then model_response_block m st else st)
         in emit_new True (collectImages r) st1))"

text \<open>
  The body of \<open>for (const line of lines)\<close>. Only \<open>JSON.parse\<close> can raise inside its
  \<open>try\<close>; the \<open>catch\<close> reports the first two lines.
\<close>

definition handle_line_v2 ::
  "(string \<Rightarrow> json option) \<Rightarrow> string \<Rightarrow> decode_state \<Rightarrow> decode_state" where
  "handle_line_v2 parse line st =
     (if is_blank line then st
      else
        (let st1 = st\<lparr>lineCount := lineCount st + 1\<rparr> in
         case parse line of
           None \<Rightarrow>
             if lineCount st1 \<le> 2
             then yield (EditDebug (NoteUnparseable (lineCount st1) (take 200 line))) st1
             else st1
         | Some data \<Rightarrow>
             (let resp = opt_field (opt_field (Some data) ''result'') ''response'';
                  st2 = (if lineCount st1 \<le> 3
                         then yield (EditDebug (NoteKeys (lineCount st1))) st1 else st1)
              in case resp of
                   None \<Rightarrow> st2
                 | Some r \<Rightarrow> if \<not> truthy resp then st2 else handle_response r st2)))"

subsection \<open>The read loop\<close>

text \<open>
  One turn of \<open>while (true)\<close> for a chunk that the reader delivers (already decoded to
  text): the chunk is appended to the buffer, the buffer is split, the last piece stays in
  the buffer and the other pieces are handled as lines, in order. \<open>handle\<close> is the body of
  \<open>for (const line of lines)\<close> of either version.
\<close>

definition feed ::
  "(string \<Rightarrow> decode_state \<Rightarrow> decode_state) \<Rightarrow> string \<Rightarrow> string \<times> decode_state
     \<Rightarrow> string \<times> decode_state" where
  "feed handle chunk bs =
     (let ls = split_nl (fst bs @ chunk)
      in (last ls, foldl (\<lambda>st line. handle line st) (snd bs) (butlast ls)))"

fun read_loop ::
  "(string \<Rightarrow> decode_state \<Rightarrow> decode_state) \<Rightarrow> string list \<Rightarrow> string \<times> decode_state
     \<Rightarrow> string \<times> decode_state" where
  "read_loop handle [] bs = bs"
| "read_loop handle (chunk # chunks) bs = read_loop handle chunks (feed handle chunk bs)"

definition decode_start :: decode_state where
  "decode_start = \<lparr>collectedUrls = [], lineCount = 0, yielded = []\<rparr>"

text \<open>After the loop, earlier version: the error for no image, or \<open>done\<close>.\<close>

definition finish_v1 :: "decode_state \<Rightarrow> decode_state" where
  "finish_v1 st =
     (if length (collectedUrls st) = 0 then yield (EditError ''No images generated'') st
      else yield EditDone st)"

text \<open>After the loop, current version.\<close>

definition finish_v2 :: "decode_state \<Rightarrow> decode_state" where
  "finish_v2 st =
     (let st1 = yield (EditDebug (NoteStreamDone (lineCount st) (length (collectedUrls st)))) st
      in if length (collectedUrls st1) = 0
         then yield (EditError (''No images generated (parsed '' @ decimal (lineCount st1)
                                  @ '' lines)'')) st1
         else yield EditDone st1)"

text \<open>
  The body of a response: the chunks the reader delivers and, if reading fails after
  them, the message of the exception.
\<close>

record response_body =
  body_chunks :: "string list"
  read_error :: "string option"

text \<open>
  The part of either version from \<open>getReader()\<close> to the end: the updates yielded and, if
  the generator raises, the message.
\<close>

definition decode_v1 ::
  "(string \<Rightarrow> json option) \<Rightarrow> (string \<Rightarrow> string list) \<Rightarrow> response_body
     \<Rightarrow> edit_update list \<times> string option" where
  "decode_v1 parse matches b =
     (let st = snd (read_loop (handle_line_v1 parse matches) (body_chunks b) ([], decode_start))
      in case read_error b of
           None \<Rightarrow> (yielded (finish_v1 st), None)
         | Some message \<Rightarrow> (yielded st, Some message))"

definition decode_v2 ::
  "(string \<Rightarrow> json option) \<Rightarrow> response_body \<Rightarrow> decode_state \<Rightarrow> edit_update list \<times> string option" where
  "decode_v2 parse b st0 =
     (let st = snd (read_loop (handle_line_v2 parse) (body_chunks b) ([], st0))
      in case read_error b of
           None \<Rightarrow> (yielded (finish_v2 st), None)
         | Some message \<Rightarrow> (yielded st, Some message))"

subsection \<open>The generator, current version\<close>

text \<open>
  What \<open>fetch(CHAT_API)\<close> does: it raises, or answers with a status, the text of an error
  body, and a body (or none).
\<close>

datatype chat_fetch =
    FetchRaises string
  | FetchAnswers nat string "response_body option"

text \<open>The fields of the request payload that depend on the arguments.\<close>

record edit_payload =
  payload_message :: string
  imageReferences :: "string list"
  imageGenerationCount :: int

definition edit_payload_of :: "string \<Rightarrow> string list \<Rightarrow> int \<Rightarrow> edit_payload" where
  "edit_payload_of prompt imageUrls imageCount =
     \<lparr>payload_message = (if prompt \<noteq> [] then prompt
                          else ''Generate new variations based on this image''),
      imageReferences = imageUrls,
      imageGenerationCount = imageCount\<rparr>"

text \<open>
  \<open>streamImageEdit\<close> called with prompt, image URLs and image count, against an upstream
  that answers \<open>upstream\<close>: the payload posted, the updates yielded, and the message of the
  exception, if the generator raises.
\<close>

definition streamImageEdit ::
  "(string \<Rightarrow> json option) \<Rightarrow> chat_fetch \<Rightarrow> string \<Rightarrow> string list \<Rightarrow> int
     \<Rightarrow> edit_payload \<times> edit_update list \<times> string option" where
  "streamImageEdit parse upstream prompt imageUrls imageCount =
     (let intro = [EditDebug NoteImageRefs, EditDebug NoteAttachments, EditDebug NoteOverride];
          payload = edit_payload_of prompt imageUrls imageCount
      in case upstream of
           FetchRaises e \<Rightarrow> (payload, intro @ [EditError (''Network error: '' @ e)], None)
         | FetchAnswers code errText b \<Rightarrow>
             if \<not> (200 \<le> code \<and> code \<le> 299)
             then (payload,
                   intro @ [EditDebug (NoteStatus code), EditDebug NoteErrorBody,
                            EditError (if code = 429 then ''Rate limited (429)''
                                       else ''HTTP '' @ decimal code @ '': '' @ take 300 errText)],
                   None)
             else
               (case b of
                  None \<Rightarrow>
                    (payload, intro @ [EditDebug (NoteStatus code), EditError ''No response body''],
                     None)
                | Some rb \<Rightarrow>
                    (case decode_v2 parse rb
                            (decode_start\<lparr>yielded := intro @ [EditDebug (NoteStatus code)]\<rparr>) of
                       (us, raised) \<Rightarrow> (payload, us, raised))))"

section \<open>Image editing with retry (\<open>POST /api/imagine/img2img\<close>)\<close>

text \<open>
  The request once \<open>image_data\<close> was accepted: \<open>count\<close> (4 when absent), the pinned
  \<open>token_id\<close> and the \<open>prompt\<close> (empty when absent).
\<close>

record edit_request = generate_request +
  prompt :: string

text \<open>
  The outcome of \<open>uploadImage\<close>: the message of the exception it raises, or the
  \<open>fileUri\<close> of its result, which may be missing when the result has a \<open>fileMetadataId\<close>.
\<close>

datatype upload_outcome =
    UploadRaises string
  | Uploaded "string option"

record edit_attempt = store_answers +
  upload :: upload_outcome
  chat :: chat_fetch

record edit_state = retry_state +
  edit_written :: "imagine_event list"
  edit_closed :: bool
  edit_lookups :: "store_lookup list"
  posted :: "edit_payload list"

definition edit_switching_info :: "nat \<Rightarrow> string" where
  "edit_switching_info n =
     ''Token rate limited, switching (attempt '' @ decimal n @ ''/'' @ decimal MAX_RETRIES @ '')''"

definition exclude_edit_token :: "string \<Rightarrow> edit_state \<Rightarrow> edit_state" where
  "exclude_edit_token tid st =
     st\<lparr>excludedTokenIds := excludedTokenIds st @ [tid],
        retryCount := retryCount st + 1,
        edit_written := edit_written st @ [ev_info (edit_switching_info (retryCount st + 1))]\<rparr>"

text \<open>\<open>Math.min(count, 4)\<close>.\<close>

definition clamped_count :: "int \<Rightarrow> int" where
  "clamped_count c = min c 4"

text \<open>
  The \<open>for await\<close> loop over the updates of \<open>streamImageEdit\<close>; \<open>imageCount\<close> is its
  counter of images.
\<close>

fun edit_for_await ::
  "int \<Rightarrow> string \<Rightarrow> edit_update list \<Rightarrow> nat \<Rightarrow> edit_state \<Rightarrow> edit_state exit" where
  "edit_for_await c tid [] imageCount st = Passed st"
| "edit_for_await c tid (EditError msg # us) imageCount st =
     (if rate_limited_image msg then Broken (exclude_edit_token tid st)
      else Returned (st\<lparr>edit_written := edit_written st @ [ev_error msg], edit_closed := True\<rparr>))"
| "edit_for_await c tid (EditImage url i # us) imageCount st =
     edit_for_await c tid us (imageCount + 1)
       (st\<lparr>edit_written := edit_written st @
              [ev_edit_image url i, ev_edit_collecting (imageCount + 1) (clamped_count c)]\<rparr>)"
| "edit_for_await c tid (EditProgress idx p # us) imageCount st =
     edit_for_await c tid us imageCount
       (st\<lparr>edit_written := edit_written st @ [ev_stage ''generating'']\<rparr>)"
| "edit_for_await c tid (EditDone # us) imageCount st =
     Returned (st\<lparr>edit_written := edit_written st @ [ev_done], edit_closed := True\<rparr>)"
| "edit_for_await c tid (EditDebug n # us) imageCount st =
     edit_for_await c tid us imageCount (st\<lparr>edit_written := edit_written st @ [ev_debug]\<rparr>)"

definition select_edit_token ::
  "string option \<Rightarrow> edit_attempt \<Rightarrow> edit_state \<Rightarrow> string option \<times> edit_state" where
  "select_edit_token pinned a st =
     (let (token, st1) =
            (if truthy_str pinned \<and> retryCount st = 0
             then (pinned_answer a,
                   st\<lparr>edit_lookups := edit_lookups st
                          @ [GetToken (or_empty pinned) (pinned_answer a)]\<rparr>)
             else (None, st))
      in case token of
           Some tid \<Rightarrow> (Some tid, st1)
         | None \<Rightarrow>
             (random_answer a,
              st1\<lparr>edit_lookups := edit_lookups st1 @
                      [GetRandomToken (excludedTokenIds st1) (random_answer a)]\<rparr>))"

text \<open>The \<open>catch\<close> of the loop body.\<close>

definition edit_catch :: "string \<Rightarrow> string \<Rightarrow> edit_state \<Rightarrow> edit_state exit" where
  "edit_catch tid msg st =
     (if rate_limited_image msg then Passed (exclude_edit_token tid st)
      else Broken (st\<lparr>edit_written := edit_written st @ [ev_error msg]\<rparr>))"

text \<open>
  The message of the \<open>TypeError\<close> for \<open>uploadResult.fileUri.startsWith\<close> on a missing
  \<open>fileUri\<close>; its wording is the engine's and names no rate limit.
\<close>

definition missing_file_uri :: string where
  "missing_file_uri = ''Cannot read properties of undefined (reading 'startsWith')''"

definition asset_url :: "string \<Rightarrow> string" where
  "asset_url fileUri =
     (if starts_with fileUri ''http'' then fileUri
      else ''https://assets.grok.com/'' @ (if starts_with fileUri ''/'' then tl fileUri else fileUri))"

text \<open>One pass through the body of the loop.\<close>

definition edit_iteration ::
  "(string \<Rightarrow> json option) \<Rightarrow> edit_request \<Rightarrow> edit_attempt \<Rightarrow> edit_state \<Rightarrow> edit_state exit" where
  "edit_iteration parse req a st =
     (case select_edit_token (token_id req) a st of
        (None, st1) \<Rightarrow>
          Broken (st1\<lparr>edit_written := edit_written st1 @
                    [ev_error (if length (excludedTokenIds st1) > 0
                               then ''All tokens rate limited (tried ''
                                      @ decimal (length (excludedTokenIds st1)) @ '' tokens)''
                               else ''No available tokens. Please import tokens first.'')]\<rparr>)
      | (Some tid, st1) \<Rightarrow>
          (let st2 = st1\<lparr>edit_written := edit_written st1 @ [ev_stage ''uploading'']\<rparr> in
           case upload a of
             UploadRaises msg \<Rightarrow> edit_catch tid msg st2
           | Uploaded None \<Rightarrow>
               edit_catch tid missing_file_uri
                 (st2\<lparr>edit_written := edit_written st2 @ [ev_debug]\<rparr>)
           | Uploaded (Some fileUri) \<Rightarrow>
               (case streamImageEdit parse (chat a) (prompt req) [asset_url fileUri]
                       (clamped_count (count req)) of
                  (payload, us, raised) \<Rightarrow>
                    (case edit_for_await (count req) tid us 0
                            (st2\<lparr>edit_written := edit_written st2
                                    @ [ev_debug, ev_debug, ev_stage ''generating''],
                                  posted := posted st2 @ [payload]\<rparr>) of
                       Returned st3 \<Rightarrow> Returned st3
                     | Broken st3 \<Rightarrow> Passed st3
                     | Passed st3 \<Rightarrow>
                         (case raised of
                            None \<Rightarrow> Passed st3
                          | Some msg \<Rightarrow> edit_catch tid msg st3)))))"

fun edit_while ::
  "(string \<Rightarrow> json option) \<Rightarrow> edit_request \<Rightarrow> edit_attempt list \<Rightarrow> edit_state
     \<Rightarrow> edit_state option" where
  "edit_while parse req script st =
     (if retryCount st < MAX_RETRIES then
        (case script of
           [] \<Rightarrow> None
         | a # rest \<Rightarrow>
             (case edit_iteration parse req a st of
                Returned st' \<Rightarrow> Some st'
              | Broken st' \<Rightarrow> Some (st'\<lparr>edit_closed := True\<rparr>)
              | Passed st' \<Rightarrow> edit_while parse req rest st'))
      else Some (st\<lparr>edit_closed := True\<rparr>))"

definition edit_start :: edit_state where
  "edit_start =
     \<lparr>excludedTokenIds = [], retryCount = 0, edit_written = [], edit_closed = False,
      edit_lookups = [], posted = []\<rparr>"

text \<open>The background task of the handler: the variables when it ends.\<close>

definition imagine_img2img ::
  "(string \<Rightarrow> json option) \<Rightarrow> edit_request \<Rightarrow> edit_attempt list \<Rightarrow> edit_state option" where
  "imagine_img2img parse req script = edit_while parse req script edit_start"

section \<open>The image proxy (\<open>GET /api/imagine/proxy\<close>)\<close>

text \<open>
  A row of the token store with the two session secrets from which \<open>buildCookie\<close> and
  \<open>getHeaders\<close> derive the request headers.
\<close>

record token_row =
  row_id :: string
  sso :: string
  sso_rw :: string

text \<open>What \<open>fetch\<close> answers: the status, the \<open>content-type\<close> header and the body.\<close>

record upstream_response =
  resp_status :: nat
  content_type :: "string option"
  resp_body :: string

text \<open>\<open>Response.ok\<close>: the status is in the range 200 to 299.\<close>

definition resp_ok :: "upstream_response \<Rightarrow> bool" where
  "resp_ok resp = (200 \<le> resp_status resp \<and> resp_status resp \<le> 299)"

datatype proxy_reply =
    TextReply nat string
  | ImageReply string string

text \<open>
  The result of the handler: its reply, and the upstream requests it made, each with the
  URL and the token whose cookie it carried.
\<close>

record proxy_result =
  reply :: proxy_reply
  fetched :: "(string \<times> token_row) list"

definition ASSET_PREFIX :: string where
  "ASSET_PREFIX = ''https://assets.grok.com/''"

text \<open>
  The handler. \<open>url\<close> is \<open>c.req.query("url")\<close>, \<open>store\<close> the answer of
  \<open>getRandomToken(c.env.DB, [])\<close>, \<open>fetch\<close> the upstream server.
\<close>

definition imagine_proxy ::
  "string option \<Rightarrow> token_row option \<Rightarrow> (string \<Rightarrow> token_row \<Rightarrow> upstream_response) \<Rightarrow> proxy_result" where
  "imagine_proxy url store fetch =
     (if \<not> truthy_str url
      then \<lparr>reply = TextReply 400 ''Missing url parameter'', fetched = []\<rparr>
      else if \<not> starts_with (or_empty url) ASSET_PREFIX
      then \<lparr>reply = TextReply 400 ''Invalid URL'', fetched = []\<rparr>
      else
        (case store of
           None \<Rightarrow> \<lparr>reply = TextReply 503 ''No tokens available'', fetched = []\<rparr>
         | Some token \<Rightarrow>
             (let resp = fetch (or_empty url) token in
              if \<not> resp_ok resp
              then \<lparr>reply = TextReply (resp_status resp)
                                (''Fetch failed: '' @ decimal (resp_status resp)),
                    fetched = [(or_empty url, token)]\<rparr>
              else \<lparr>reply = ImageReply
                                (if truthy_str (content_type resp)
                                 then or_empty (content_type resp) else ''image/jpeg'')
                                (resp_body resp),
                    fetched = [(or_empty url, token)]\<rparr>)))"

section \<open>Auxiliary notions for the proofs about the Messages endpoint\<close>

text \<open>The contents of the token updates of a stream that the handlers take up, in order.\<close>

fun token_contents :: "chat_update list \<Rightarrow> string list" where
  "token_contents [] = []"
| "token_contents (ChatToken c # us) =
     (if truthy_str c then or_empty c # token_contents us else token_contents us)"
| "token_contents (u # us) = token_contents us"

definition script_contents :: "chat_attempt list \<Rightarrow> string list" where
  "script_contents script = concat (map (\<lambda>a. token_contents (updates a)) script)"

text \<open>
  The first error or done update of a stream, where both \<open>for await\<close> loops stop, and the
  token contents taken up before it.
\<close>

datatype stop = Unstopped | StopError "string option" | StopDone

fun ending :: "chat_update list \<Rightarrow> stop" where
  "ending [] = Unstopped"
| "ending (ChatError m # us) = StopError m"
| "ending (ChatDone # us) = StopDone"
| "ending (u # us) = ending us"

fun taken :: "chat_update list \<Rightarrow> string list" where
  "taken [] = []"
| "taken (ChatError m # us) = []"
| "taken (ChatDone # us) = []"
| "taken (ChatToken c # us) = (if truthy_str c then or_empty c # taken us else taken us)"
| "taken (ChatOther # us) = taken us"

text \<open>The streaming variables after the texts were forwarded as deltas and counted.\<close>

definition forwarded :: "stream_state \<Rightarrow> string list \<Rightarrow> stream_state" where
  "forwarded st texts =
     st\<lparr>charCount := charCount st + sum_list (map length texts),
        pushed := pushed st @ map evtDelta texts\<rparr>"

text \<open>
  How the streaming variables \<open>st'\<close> continue \<open>st\<close>: the deltas of \<open>texts\<close> were pushed and
  counted, then the markers \<open>errs\<close>, and every retry excluded one token.
\<close>

definition stream_extends :: "stream_state \<Rightarrow> stream_state \<Rightarrow> string list \<Rightarrow> string list \<Rightarrow> bool" where
  "stream_extends st st' texts errs =
     (pushed st' = pushed st @ map evtDelta texts @ map evtDelta errs
      \<and> charCount st' = charCount st + sum_list (map length texts)
      \<and> length errs \<le> 1
      \<and> set errs \<subseteq> range error_marker
      \<and> (errs \<noteq> [] \<longrightarrow> \<not> success st')
      \<and> retryCount st \<le> retryCount st'
      \<and> length (excludedTokenIds st') = length (excludedTokenIds st) + (retryCount st' - retryCount st))"

text \<open>The non-streaming variables after the texts were appended to \<open>fullContent\<close>.\<close>

definition collected :: "nonstream_state \<Rightarrow> string list \<Rightarrow> nonstream_state" where
  "collected st texts = st\<lparr>fullContent := fullContent st @ concat texts\<rparr>"

text \<open>
  How the non-streaming variables \<open>st'\<close> continue \<open>st\<close>: the texts were appended, and every
  retry excluded one token.
\<close>

definition nonstream_extends :: "nonstream_state \<Rightarrow> nonstream_state \<Rightarrow> string list \<Rightarrow> bool" where
  "nonstream_extends st st' texts =
     (fullContent st' = fullContent st @ concat texts
      \<and> retryCount st \<le> retryCount st'
      \<and> length (excludedTokenIds st') = length (excludedTokenIds st) + (retryCount st' - retryCount st))"

text \<open>
  An attempt whose stream announces its own end: the store has no token, or the generator
  yields an error or a done update, or it raises.
\<close>

definition closed_attempt :: "chat_attempt \<Rightarrow> bool" where
  "closed_attempt a =
     (random_token a = None \<or> throws a \<noteq> None \<or> ending (updates a) \<noteq> Unstopped)"

text \<open>
  The attempts after which the loop of the streaming branch goes on. A rotating attempt has
  a token whose stream stops at an error update that passes the rate-limit test of the loop,
  or runs dry and then raises an exception that passes the test of the \<open>catch\<close>. An idle
  attempt has a token whose stream runs dry without error, done or exception.
\<close>

definition rotating :: "chat_attempt \<Rightarrow> bool" where
  "rotating a =
     (random_token a \<noteq> None \<and>
      (case ending (updates a) of
         StopError m \<Rightarrow> rate_limited_update (or_empty m)
       | StopDone \<Rightarrow> False
       | Unstopped \<Rightarrow>
           (case throws a of None \<Rightarrow> False | Some message \<Rightarrow> rate_limited_exception message)))"

definition idle :: "chat_attempt \<Rightarrow> bool" where
  "idle a = (random_token a \<noteq> None \<and> ending (updates a) = Unstopped \<and> throws a = None)"

definition passing :: "chat_attempt \<Rightarrow> bool" where
  "passing a = (rotating a \<or> idle a)"

text \<open>
  Of a list of attempts: the number of rotating ones, their tokens, and the token contents
  that come before the first error or done update of each stream.
\<close>

definition rotations :: "chat_attempt list \<Rightarrow> nat" where
  "rotations pre = length (filter rotating pre)"

definition rotated_ids :: "chat_attempt list \<Rightarrow> string list" where
  "rotated_ids pre =
     concat (map (\<lambda>a. case random_token a of None \<Rightarrow> [] | Some tid \<Rightarrow> [tid])
                 (filter rotating pre))"

definition taken_texts :: "chat_attempt list \<Rightarrow> string list" where
  "taken_texts pre = concat (map (\<lambda>a. taken (updates a)) pre)"

text \<open>
  The events of a closed envelope: the three opening events, one delta for each text, one
  delta for each marker, and the three closing events with the estimate for the texts.
\<close>

definition envelope :: "string \<Rightarrow> string \<Rightarrow> string list \<Rightarrow> string list \<Rightarrow> sse list" where
  "envelope msgId rawModel texts errs =
     [evtMessageStart msgId rawModel, evtContentBlockStart, evtPing]
     @ map evtDelta texts @ map evtDelta errs
     @ [evtContentBlockStop, evtMessageDelta (ceil_quarter (length (concat texts))),
        evtMessageStop]"

text \<open>
  The variables of the streaming branch when, from the start, the attempts \<open>pre\<close> have all
  let the loop go on.
\<close>

definition reached :: "string \<Rightarrow> string \<Rightarrow> chat_attempt list \<Rightarrow> stream_state" where
  "reached msgId rawModel pre =
     (forwarded (stream_start msgId rawModel) (taken_texts pre))
        \<lparr>excludedTokenIds := rotated_ids pre, retryCount := rotations pre\<rparr>"

text \<open>
  What \<open>nonstream_while\<close> guarantees about its result, started from variables \<open>st\<close> on the
  attempts \<open>script\<close>.
\<close>

definition nonstream_post ::
  "chat_attempt list \<Rightarrow> nonstream_state \<Rightarrow> (http_response \<times> nonstream_state) + nonstream_state \<Rightarrow> bool" where
  "nonstream_post script st res =
     (case res of
        Inl (r, st') \<Rightarrow>
          \<not> success st' \<and> retryCount st' < MAX_RETRIES
          \<and> (status r = 529 \<or> status r = 500)
          \<and> (status r = 529 \<longrightarrow> r \<in> range (error_response 529 ''overloaded_error''))
          \<and> (status r = 500 \<longrightarrow> r \<in> range (error_response 500 ''api_error''))
          \<and> (\<exists>texts. subseq texts (script_contents script) \<and> nonstream_extends st st' texts)
      | Inr st' \<Rightarrow>
          (success st' \<longrightarrow> retryCount st' < MAX_RETRIES)
          \<and> (\<not> success st' \<longrightarrow> retryCount st' = MAX_RETRIES)
          \<and> (success st' \<longrightarrow> (\<exists>a \<in> set script. ending (updates a) = StopDone))
          \<and> (\<exists>texts. subseq texts (script_contents script) \<and> nonstream_extends st st' texts))"

section \<open>Auxiliary notions for the proofs about the image edit stream\<close>

text \<open>The URLs and the indexes of the image updates of a list of updates, in order.\<close>

fun image_urls :: "edit_update list \<Rightarrow> string list" where
  "image_urls [] = []"
| "image_urls (EditImage url i # us) = url # image_urls us"
| "image_urls (u # us) = image_urls us"

fun image_indexes :: "edit_update list \<Rightarrow> nat list" where
  "image_indexes [] = []"
| "image_indexes (EditImage url i # us) = i # image_indexes us"
| "image_indexes (u # us) = image_indexes us"

text \<open>The updates that are not \<open>debug\<close> updates.\<close>

fun is_debug :: "edit_update \<Rightarrow> bool" where
  "is_debug (EditDebug n) = True"
| "is_debug u = False"

text \<open>
  The variables of the decode loop are consistent: the images yielded so far are the
  collected URLs, in order and numbered from 0.
\<close>

definition consistent :: "decode_state \<Rightarrow> bool" where
  "consistent st =
     (image_urls (yielded st) = collectedUrls st
      \<and> image_indexes (yielded st) = [0 ..< length (collectedUrls st)]
      \<and> distinct (collectedUrls st))"

text \<open>
  The URLs that a line hands to the loops over URLs, in the order of discovery and with
  their repetitions; none for a line that leads to no such loop.
\<close>

definition line_urls_v1 ::
  "(string \<Rightarrow> json option) \<Rightarrow> (string \<Rightarrow> string list) \<Rightarrow> string \<Rightarrow> string list" where
  "line_urls_v1 parse matches line =
     (if is_blank line then []
      else
        (case parse line of
           None \<Rightarrow> []
         | Some data \<Rightarrow>
             (case opt_field (opt_field (Some data) ''result'') ''response'' of
                None \<Rightarrow> []
              | Some r \<Rightarrow>
                  if \<not> truthy (Some r) then []
                  else if truthy (get_field r ''streamingImageGenerationResponse'') then []
                  else
                    (case get_field r ''modelResponse'' of
                       None \<Rightarrow> []
                     | Some m \<Rightarrow>
                         if truthy (Some m)
                         then (case extractImageUrls matches m of None \<Rightarrow> [] | Some urls \<Rightarrow> urls)
                         else []))))"

definition line_urls_v2 :: "(string \<Rightarrow> json option) \<Rightarrow> string \<Rightarrow> string list" where
  "line_urls_v2 parse line =
     (if is_blank line then []
      else
        (case parse line of
           None \<Rightarrow> []
         | Some data \<Rightarrow>
             (case opt_field (opt_field (Some data) ''result'') ''response'' of
                None \<Rightarrow> []
              | Some r \<Rightarrow>
                  if \<not> truthy (Some r) then []
                  else if truthy (get_field r ''streamingImageGenerationResponse'') then []
                  else
                    (case get_field r ''modelResponse'' of
                       None \<Rightarrow> []
                     | Some m \<Rightarrow> if truthy (Some m) then collectImages m else [])
                    @ collectImages r)))"

text \<open>The complete lines of a text: those that end with a newline.\<close>

definition complete_lines :: "string \<Rightarrow> string list" where
  "complete_lines s = butlast (split_nl s)"

text \<open>A parser that rejects every line.\<close>

definition never_parses :: "string \<Rightarrow> json option" where
  "never_parses line = None"

text \<open>The URLs of the image events that the image edit handler wrote, in order.\<close>

fun edit_image_urls :: "imagine_event list \<Rightarrow> string list" where
  "edit_image_urls [] = []"
| "edit_image_urls (ev_edit_image url i # es) = url # edit_image_urls es"
| "edit_image_urls (e # es) = edit_image_urls es"

text \<open>The URLs of the image events of a finished task.\<close>

definition forwarded_urls :: "edit_state option \<Rightarrow> string list" where
  "forwarded_urls r = (case r of None \<Rightarrow> [] | Some st \<Rightarrow> edit_image_urls (edit_written st))"

text \<open>
  Every request posted asked for \<open>min(c, 4)\<close> images and every progress event of status
  \<open>collecting\<close> names \<open>min(c, 4)\<close> as its target.
\<close>

fun collecting_target :: "int \<Rightarrow> imagine_event \<Rightarrow> bool" where
  "collecting_target k (ev_edit_collecting n t) = (t = k)"
| "collecting_target k e = True"

definition clamp_kept :: "int \<Rightarrow> edit_state \<Rightarrow> bool" where
  "clamp_kept c st =
     (list_all (\<lambda>p. imageGenerationCount p = min c 4) (posted st)
      \<and> list_all (collecting_target (min c 4)) (edit_written st))"

section \<open>The states a retry loop passes through\<close>

text \<open>
  The variables at every test of the loop condition of the streaming branch, in order, and
  at the end those with which the loop is left.
\<close>

fun stream_trace :: "chat_attempt list \<Rightarrow> stream_state \<Rightarrow> stream_state list" where
  "stream_trace script st =
     st # (if retryCount st < MAX_RETRIES then
             (case script of
                [] \<Rightarrow> []
              | a # rest \<Rightarrow>
                  (case stream_iteration a st of
                     (st', leave) \<Rightarrow> if leave then [st'] else stream_trace rest st'))
           else [])"

declare stream_trace.simps [simp del]

text \<open>The same for the image generation task, ending with the variables at its end.\<close>

fun generate_trace ::
  "generate_request \<Rightarrow> image_attempt list \<Rightarrow> generate_state \<Rightarrow> generate_state list" where
  "generate_trace req script st =
     st # (if retryCount st < MAX_RETRIES \<and> int (totalCollected st) < count req then
             (case script of
                [] \<Rightarrow> []
              | a # rest \<Rightarrow>
                  (case generate_iteration req a st of
                     Returned st' \<Rightarrow> [st']
                   | Broken st' \<Rightarrow> [generate_finish st']
                   | Passed st' \<Rightarrow> generate_trace req rest st'))
           else [generate_finish st])"

declare generate_trace.simps [simp del]

text \<open>The variables an exit carries.\<close>

fun exit_state :: "'a exit \<Rightarrow> 'a" where
  "exit_state (Returned s) = s"
| "exit_state (Broken s) = s"
| "exit_state (Passed s) = s"

text \<open>
  A pass that used a retry: the counter went up by one and the token of the pass was
  appended to the excluded ones. A pass that used none: both are unchanged.
\<close>

definition retried :: "'a retry_state_scheme \<Rightarrow> 'b retry_state_scheme \<Rightarrow> string \<Rightarrow> bool" where
  "retried st st' tid =
     (retryCount st' = retryCount st + 1 \<and> excludedTokenIds st' = excludedTokenIds st @ [tid])"

definition unretried :: "'a retry_state_scheme \<Rightarrow> 'b retry_state_scheme \<Rightarrow> bool" where
  "unretried st st' =
     (retryCount st' = retryCount st \<and> excludedTokenIds st' = excludedTokenIds st)"

text \<open>Image attempts that are rate limited at once.\<close>

definition rate_limited_image_attempt :: "string \<Rightarrow> image_attempt" where
  "rate_limited_image_attempt tid =
     \<lparr>pinned_answer = None, random_answer = Some tid,
      image_updates = [ImgError ''Rate limited (429)''], image_throws = None\<rparr>"

definition images_all_rate_limited :: "image_attempt list" where
  "images_all_rate_limited =
     map rate_limited_image_attempt [''t1'', ''t2'', ''t3'', ''t4'', ''t5'', ''t6'', ''t7'']"

section \<open>Example runs\<close>

text \<open>
  Two tokens: the first yields a text and is then rate limited, the second yields a text
  and finishes.
\<close>

definition run_retry_then_done :: "chat_attempt list" where
  "run_retry_then_done =
     [\<lparr>random_token = Some ''t1'',
       updates = [ChatToken (Some ''Hello''), ChatError (Some ''Rate limited (429)'')],
       throws = None\<rparr>,
      \<lparr>random_token = Some ''t2'',
       updates = [ChatToken (Some ''Hi there''), ChatDone],
       throws = None\<rparr>]"

text \<open>One token whose stream yields a text and then an error that is not a rate limit.\<close>

definition run_fatal :: "chat_attempt list" where
  "run_fatal =
     [\<lparr>random_token = Some ''t1'',
       updates = [ChatToken (Some ''Hello''), ChatError (Some ''HTTP 500: upstream'')],
       throws = None\<rparr>]"

text \<open>One token is rate limited, then the store has none left.\<close>

definition run_pool_exhausted :: "chat_attempt list" where
  "run_pool_exhausted =
     [\<lparr>random_token = Some ''t1'',
       updates = [ChatToken (Some ''Hello''), ChatError (Some ''Rate limited (429)'')],
       throws = None\<rparr>,
      \<lparr>random_token = None, updates = [], throws = None\<rparr>]"

text \<open>A token whose stream yields a text and then raises an exception that is no rate limit.\<close>

definition raising_attempt :: chat_attempt where
  "raising_attempt =
     \<lparr>random_token = Some ''t2'', updates = [ChatToken (Some ''Hi'')],
      throws = Some ''socket hang up''\<rparr>"

text \<open>A token whose stream yields a text and ends without a done update.\<close>

definition idle_attempt :: chat_attempt where
  "idle_attempt =
     \<lparr>random_token = Some ''t0'', updates = [ChatToken (Some ''One '')], throws = None\<rparr>"

text \<open>Every token the store offers is rate limited at once.\<close>

definition rate_limited_attempt :: "string \<Rightarrow> chat_attempt" where
  "rate_limited_attempt tid =
     \<lparr>random_token = Some tid, updates = [ChatError (Some ''Rate limited (429)'')], throws = None\<rparr>"

definition run_all_rate_limited :: "chat_attempt list" where
  "run_all_rate_limited = map rate_limited_attempt [''t1'', ''t2'', ''t3'', ''t4'', ''t5'', ''t6'', ''t7'']"

text \<open>
  Lines of an upstream body and a parser for them: \<open>A\<close> carries a model response with one
  image URL, \<open>P\<close> a progress marker, \<open>F\<close> a model response with five image URLs; any
  other line does not parse.
\<close>

definition response_line :: "json \<Rightarrow> json" where
  "response_line r = JObj [(''result'', JObj [(''response'', r)])]"

definition demo_parse :: "string \<Rightarrow> json option" where
  "demo_parse line =
     (if line = ''A'' then
        Some (response_line (JObj [(''modelResponse'',
                JObj [(''generatedImageUrls'', JArr [JStr ''https://assets.grok.com/a.png''])])]))
      else if line = ''P'' then
        Some (response_line (JObj [(''streamingImageGenerationResponse'',
                JObj [(''progress'', JNum 50), (''imageIndex'', JNum 1)])]))
      else if line = ''F'' then
        Some (response_line (JObj [(''modelResponse'',
                JObj [(''generatedImageUrls'',
                  JArr [JStr ''https://assets.grok.com/1.png'', JStr ''https://assets.grok.com/2.png'',
                        JStr ''https://assets.grok.com/3.png'', JStr ''https://assets.grok.com/4.png'',
                        JStr ''https://assets.grok.com/5.png''])])]))
      else None)"

text \<open>An answer of status 200 with the given chunks and read error.\<close>

definition ok_body :: "string list \<Rightarrow> string option \<Rightarrow> chat_fetch" where
  "ok_body cs e = FetchAnswers 200 [] (Some \<lparr>body_chunks = cs, read_error = e\<rparr>)"

text \<open>An attempt with token \<open>tid\<close> whose upload succeeds and whose chat call answers \<open>c\<close>.\<close>

definition edit_attempt_with :: "string \<Rightarrow> chat_fetch \<Rightarrow> edit_attempt" where
  "edit_attempt_with tid c =
     \<lparr>pinned_answer = None, random_answer = Some tid,
      upload = Uploaded (Some ''users/1/f''), chat = c\<rparr>"

section \<open>Properties of the streaming branch\<close>

lemma ceil_quarter_div: "ceil_quarter n = (n + 3) div 4"
  unfolding ceil_quarter_def by linarith

lemma forwarded_Nil: "forwarded st [] = st"
  by (simp add: forwarded_def)

lemma forwarded_Cons:
  "forwarded (st\<lparr>charCount := charCount st + length c, pushed := pushed st @ [evtDelta c]\<rparr>) texts
     = forwarded st (c # texts)"
  by (simp add: forwarded_def)

lemma subseq_taken: "subseq (taken us) (token_contents us)"
  by (induction us rule: taken.induct) simp_all

text \<open>The four ways in which the \<open>for await\<close> loop of the streaming branch ends.\<close>

lemma stream_for_await_shape:
  "stream_for_await tid us st =
     (case ending us of
        Unstopped \<Rightarrow> Drained (forwarded st (taken us), False)
      | StopDone \<Rightarrow> Broke ((forwarded st (taken us))\<lparr>success := True\<rparr>, True)
      | StopError m \<Rightarrow>
          if rate_limited_update (or_empty m)
          then Broke ((forwarded st (taken us))\<lparr>excludedTokenIds := excludedTokenIds st @ [tid],
                                                   retryCount := retryCount st + 1\<rparr>, False)
          else Broke ((forwarded st (taken us))
                        \<lparr>pushed := pushed st @ map evtDelta (taken us) @
                                     [evtDelta (error_marker (or_empty m))]\<rparr>, True))"
proof (induction tid us st rule: stream_for_await.induct)
  case (3 tid c us st)
  then show ?case
    by (cases "truthy_str c") (simp_all add: forwarded_def split: stop.splits)
qed (simp_all add: forwarded_def split: stop.splits)

text \<open>One pass of the streaming loop, in terms of what it pushes and counts.\<close>

lemma stream_try_extends:
  assumes "stream_try tid a st = (st', leave)" and "\<not> success st"
  shows "\<exists>errs. stream_extends st st' (taken (updates a)) errs \<and> (errs \<noteq> [] \<longrightarrow> leave)
           \<and> (success st' \<longrightarrow> leave) \<and> retryCount st' \<le> retryCount st + 1
           \<and> (leave \<longrightarrow> retryCount st' = retryCount st)
           \<and> (throws a \<noteq> None \<or> ending (updates a) \<noteq> Unstopped
                  \<longrightarrow> leave \<or> retryCount st' = retryCount st + 1)
           \<and> (leave \<longrightarrow> success st' \<or> errs \<noteq> [])
           \<and> (success st' \<longrightarrow> ending (updates a) = StopDone)"
proof (cases "ending (updates a)")
  case Unstopped
  show ?thesis
  proof (cases "throws a")
    case None
    with Unstopped assms show ?thesis
      by (intro exI [of _ "[]"])
         (auto simp add: stream_try_def stream_for_await_shape stream_extends_def forwarded_def)
  next
    case (Some message)
    show ?thesis
    proof (cases "rate_limited_exception message")
      case True
      with Unstopped Some assms show ?thesis
        by (intro exI [of _ "[]"])
           (auto simp add: stream_try_def stream_for_await_shape stream_extends_def forwarded_def)
    next
      case False
      with Unstopped Some assms show ?thesis
        by (intro exI [of _ "[error_marker message]"])
           (auto simp add: stream_try_def stream_for_await_shape stream_extends_def forwarded_def)
    qed
  qed
next
  case (StopError m)
  show ?thesis
  proof (cases "rate_limited_update (or_empty m)")
    case True
    with StopError assms show ?thesis
      by (intro exI [of _ "[]"])
         (auto simp add: stream_try_def stream_for_await_shape stream_extends_def forwarded_def)
  next
    case False
    with StopError assms show ?thesis
      by (intro exI [of _ "[error_marker (or_empty m)]"])
         (auto simp add: stream_try_def stream_for_await_shape stream_extends_def forwarded_def)
  qed
next
  case StopDone
  with assms show ?thesis
    by (intro exI [of _ "[]"])
       (auto simp add: stream_try_def stream_for_await_shape stream_extends_def forwarded_def)
qed

lemma stream_iteration_extends:
  assumes "stream_iteration a st = (st', leave)" and "\<not> success st"
  shows "\<exists>texts errs. subseq texts (token_contents (updates a))
           \<and> stream_extends st st' texts errs \<and> (errs \<noteq> [] \<longrightarrow> leave)
           \<and> (success st' \<longrightarrow> leave) \<and> retryCount st' \<le> retryCount st + 1
           \<and> (leave \<longrightarrow> retryCount st' = retryCount st)
           \<and> (closed_attempt a \<longrightarrow> leave \<or> retryCount st' = retryCount st + 1)
           \<and> (leave \<longrightarrow> success st' \<or> errs \<noteq> [])
           \<and> (success st' \<longrightarrow> ending (updates a) = StopDone)"
proof (cases "random_token a")
  case None
  with assms show ?thesis
    by (intro exI [of _ "[]"]
          exI [of _ "[error_marker (if length (excludedTokenIds st) > 0
                         then ''All tokens rate limited'' else ''No available tokens'')]"])
       (auto simp add: stream_iteration_def stream_extends_def Let_def)
next
  case (Some tid)
  with assms have "stream_try tid a st = (st', leave)"
    by (simp add: stream_iteration_def)
  from stream_try_extends [OF this assms(2)] obtain errs where
    "stream_extends st st' (taken (updates a)) errs \<and> (errs \<noteq> [] \<longrightarrow> leave)
           \<and> (success st' \<longrightarrow> leave) \<and> retryCount st' \<le> retryCount st + 1
           \<and> (leave \<longrightarrow> retryCount st' = retryCount st)
           \<and> (throws a \<noteq> None \<or> ending (updates a) \<noteq> Unstopped
                  \<longrightarrow> leave \<or> retryCount st' = retryCount st + 1)
           \<and> (leave \<longrightarrow> success st' \<or> errs \<noteq> [])
           \<and> (success st' \<longrightarrow> ending (updates a) = StopDone)" ..
  with Some show ?thesis
    by (intro exI [of _ "taken (updates a)"] exI [of _ errs])
       (simp add: subseq_taken closed_attempt_def)
qed

lemma stream_extends_trans:
  assumes "stream_extends st st1 texts1 []" and "stream_extends st1 st2 texts2 errs"
  shows "stream_extends st st2 (texts1 @ texts2) errs"
  using assms by (auto simp add: stream_extends_def)

lemma stream_extends_refl: "stream_extends st st [] []"
  by (simp add: stream_extends_def)

lemma subseq_script_head:
  "subseq texts (token_contents (updates a)) \<Longrightarrow> subseq texts (script_contents (a # rest))"
  by (simp add: script_contents_def list_emb_prefix)

lemma subseq_script_Cons:
  "subseq texts1 (token_contents (updates a)) \<Longrightarrow> subseq texts2 (script_contents rest) \<Longrightarrow>
     subseq (texts1 @ texts2) (script_contents (a # rest))"
  by (simp add: script_contents_def list_emb_append_mono)

text \<open>The whole loop: what was pushed comes from the streams, in order.\<close>

lemma stream_while_extends:
  "\<not> success st \<Longrightarrow> stream_while script st = Some st' \<Longrightarrow>
     \<exists>texts errs. subseq texts (script_contents script) \<and> stream_extends st st' texts errs
       \<and> (\<not> success st' \<and> retryCount st' < MAX_RETRIES \<longrightarrow> errs \<noteq> [])
       \<and> (success st' \<longrightarrow> (\<exists>a \<in> set script. ending (updates a) = StopDone))"
proof (induction script arbitrary: st)
  case Nil
  then have "st' = st" and "\<not> retryCount st < MAX_RETRIES" by (simp_all split: if_splits)
  with Nil.prems(1) show ?case
    by (intro exI [of _ "[]"]) (simp add: stream_extends_refl)
next
  case (Cons a rest)
  show ?case
  proof (cases "retryCount st < MAX_RETRIES")
    case False
    with Cons.prems have "st' = st" by simp
    with False Cons.prems(1) show ?thesis
      by (intro exI [of _ "[]"]) (simp add: stream_extends_refl)
  next
    case True
    obtain st1 leave where it: "stream_iteration a st = (st1, leave)"
      by (cases "stream_iteration a st")
    from stream_iteration_extends [OF it Cons.prems(1)] obtain texts1 errs1 where
      sub1: "subseq texts1 (token_contents (updates a))"
      and e1: "stream_extends st st1 texts1 errs1" and l1: "errs1 \<noteq> [] \<longrightarrow> leave"
      and s1: "success st1 \<longrightarrow> leave"
      and m1: "leave \<longrightarrow> success st1 \<or> errs1 \<noteq> []"
      and d1: "success st1 \<longrightarrow> ending (updates a) = StopDone" by blast
    show ?thesis
    proof (cases leave)
      case True
      with \<open>retryCount st < MAX_RETRIES\<close> it Cons.prems(2) have "st' = st1" by simp
      moreover from sub1 have "subseq texts1 (script_contents (a # rest))"
        by (rule subseq_script_head)
      ultimately show ?thesis using e1 m1 d1 True
        by (intro exI [of _ texts1] exI [of _ errs1]) auto
    next
      case False
      with \<open>retryCount st < MAX_RETRIES\<close> it Cons.prems(2)
      have w: "stream_while rest st1 = Some st'" by simp
      from False l1 s1 have "errs1 = []" and "\<not> success st1" by auto
      from Cons.IH [OF this(2) w] obtain texts2 errs2 where
        sub2: "subseq texts2 (script_contents rest)"
        and e2: "stream_extends st1 st' texts2 errs2"
        and m2: "\<not> success st' \<and> retryCount st' < MAX_RETRIES \<longrightarrow> errs2 \<noteq> []"
        and d2: "success st' \<longrightarrow> (\<exists>a \<in> set rest. ending (updates a) = StopDone)" by blast
      from sub1 sub2 have "subseq (texts1 @ texts2) (script_contents (a # rest))"
        by (rule subseq_script_Cons)
      moreover from e1 \<open>errs1 = []\<close> e2 have "stream_extends st st' (texts1 @ texts2) errs2"
        using stream_extends_trans by blast
      ultimately show ?thesis using m2 d2
        by (intro exI [of _ "texts1 @ texts2"] exI [of _ errs2]) auto
    qed
  qed
qed

lemma stream_while_success:
  "\<not> success st \<Longrightarrow> stream_while script st = Some st' \<Longrightarrow>
     retryCount st \<le> MAX_RETRIES \<Longrightarrow>
     retryCount st' \<le> MAX_RETRIES \<and> (success st' \<longrightarrow> retryCount st' < MAX_RETRIES)"
proof (induction script arbitrary: st)
  case Nil
  then show ?case by (auto split: if_splits)
next
  case (Cons a rest)
  show ?case
  proof (cases "retryCount st < MAX_RETRIES")
    case False
    with Cons.prems show ?thesis by auto
  next
    case True
    obtain st1 leave where it: "stream_iteration a st = (st1, leave)"
      by (cases "stream_iteration a st")
    from stream_iteration_extends [OF it Cons.prems(1)]
    have b: "retryCount st1 \<le> retryCount st + 1" and s1: "success st1 \<longrightarrow> leave"
      and k: "leave \<longrightarrow> retryCount st1 = retryCount st" by blast+
    show ?thesis
    proof (cases leave)
      case True
      with \<open>retryCount st < MAX_RETRIES\<close> it Cons.prems(2) k show ?thesis by auto
    next
      case False
      with \<open>retryCount st < MAX_RETRIES\<close> it Cons.prems(2)
      have w: "stream_while rest st1 = Some st'" by simp
      from b True have "retryCount st1 \<le> MAX_RETRIES" by simp
      with Cons.IH [OF _ w] s1 False show ?thesis by blast
    qed
  qed
qed

text \<open>
  When every stream announces its end, each pass leaves the loop or uses one retry, so the
  loop is over after at most \<open>MAX_RETRIES\<close> attempts.
\<close>

lemma stream_while_terminates:
  "\<forall>a \<in> set script. closed_attempt a \<Longrightarrow> \<not> success st \<Longrightarrow>
     MAX_RETRIES - retryCount st \<le> length script \<Longrightarrow> stream_while script st \<noteq> None"
proof (induction script arbitrary: st)
  case Nil
  then show ?case by simp
next
  case (Cons a rest)
  show ?case
  proof (cases "retryCount st < MAX_RETRIES")
    case False
    then show ?thesis by simp
  next
    case True
    obtain st1 leave where it: "stream_iteration a st = (st1, leave)"
      by (cases "stream_iteration a st")
    from Cons.prems(1) have ca: "closed_attempt a" by simp
    from stream_iteration_extends [OF it Cons.prems(2)] ca
    have s1: "success st1 \<longrightarrow> leave" and p: "leave \<or> retryCount st1 = retryCount st + 1"
      by blast+
    show ?thesis
    proof (cases leave)
      case True
      with \<open>retryCount st < MAX_RETRIES\<close> it show ?thesis by simp
    next
      case False
      with p have "retryCount st1 = retryCount st + 1" by simp
      with Cons.prems(3) have "MAX_RETRIES - retryCount st1 \<le> length rest" by simp
      moreover from s1 False have "\<not> success st1" by simp
      moreover from Cons.prems(1) have "\<forall>a \<in> set rest. closed_attempt a" by simp
      ultimately have "stream_while rest st1 \<noteq> None" using Cons.IH by blast
      with \<open>retryCount st < MAX_RETRIES\<close> it False show ?thesis by simp
    qed
  qed
qed

section \<open>Properties of the non-streaming branch\<close>

lemma nonstream_for_await_shape:
  "nonstream_for_await tid us st =
     (case ending us of
        Unstopped \<Rightarrow> Inr (Drained (collected st (taken us)))
      | StopDone \<Rightarrow> Inr (Broke ((collected st (taken us))\<lparr>success := True\<rparr>))
      | StopError m \<Rightarrow>
          if rate_limited_update (or_empty m)
          then Inr (Broke ((collected st (taken us))
                             \<lparr>excludedTokenIds := excludedTokenIds st @ [tid],
                              retryCount := retryCount st + 1,
                              lastError := or_empty m\<rparr>))
          else Inl (error_response 500 ''api_error'' (or_empty m), collected st (taken us)))"
proof (induction tid us st rule: nonstream_for_await.induct)
  case (3 tid c us st)
  then show ?case
    by (cases "truthy_str c") (simp_all add: collected_def split: stop.splits)
qed (simp_all add: collected_def split: stop.splits)

text \<open>One pass of the non-streaming loop.\<close>

lemma nonstream_iteration_shape:
  "nonstream_iteration a st =
     (case random_token a of
        None \<Rightarrow>
          Inl (error_response 529 ''overloaded_error''
                 (if length (excludedTokenIds st) > 0
                  then ''All tokens rate limited (tried '' @ decimal (length (excludedTokenIds st)) @ '')''
                  else ''No available tokens''), st)
      | Some tid \<Rightarrow>
          (case ending (updates a) of
             Unstopped \<Rightarrow>
               (case throws a of
                  None \<Rightarrow> Inr (collected st (taken (updates a)), success st)
                | Some message \<Rightarrow>
                    if rate_limited_exception message
                    then Inr ((collected st (taken (updates a)))
                                \<lparr>excludedTokenIds := excludedTokenIds st @ [tid],
                                 retryCount := retryCount st + 1,
                                 lastError := message\<rparr>, False)
                    else Inl (error_response 500 ''api_error'' message,
                              collected st (taken (updates a))))
           | StopDone \<Rightarrow> Inr ((collected st (taken (updates a)))\<lparr>success := True\<rparr>, True)
           | StopError m \<Rightarrow>
               if rate_limited_update (or_empty m)
               then Inr ((collected st (taken (updates a)))
                           \<lparr>excludedTokenIds := excludedTokenIds st @ [tid],
                            retryCount := retryCount st + 1,
                            lastError := or_empty m\<rparr>, success st)
               else Inl (error_response 500 ''api_error'' (or_empty m),
                         collected st (taken (updates a)))))"
  by (simp add: nonstream_iteration_def nonstream_for_await_shape collected_def Let_def
        split: option.splits stop.splits)

lemma nonstream_iteration_Inr:
  assumes "nonstream_iteration a st = Inr (st', leave)" and "\<not> success st"
  shows "nonstream_extends st st' (taken (updates a))" and "leave = success st'"
    and "retryCount st' \<le> retryCount st + 1" and "leave \<longrightarrow> retryCount st' = retryCount st"
    and "closed_attempt a \<longrightarrow> leave \<or> retryCount st' = retryCount st + 1"
    and "success st' \<longrightarrow> ending (updates a) = StopDone"
  using assms
  by (auto simp add: nonstream_iteration_shape collected_def nonstream_extends_def
        closed_attempt_def split: option.splits stop.splits if_splits)

lemma nonstream_iteration_Inl:
  assumes "nonstream_iteration a st = Inl (r, st')" and "\<not> success st"
  shows "\<not> success st'" and "retryCount st' = retryCount st"
    and "status r = 529 \<or> status r = 500"
    and "status r = 529 \<longrightarrow> r \<in> range (error_response 529 ''overloaded_error'')"
    and "status r = 500 \<longrightarrow> r \<in> range (error_response 500 ''api_error'')"
    and "\<exists>texts. subseq texts (token_contents (updates a)) \<and> nonstream_extends st st' texts"
proof -
  show "\<not> success st'" and "retryCount st' = retryCount st"
    and "status r = 529 \<or> status r = 500"
    and "status r = 529 \<longrightarrow> r \<in> range (error_response 529 ''overloaded_error'')"
    and "status r = 500 \<longrightarrow> r \<in> range (error_response 500 ''api_error'')"
    using assms
    by (auto simp add: nonstream_iteration_shape collected_def error_response_def
          split: option.splits stop.splits if_splits)
  show "\<exists>texts. subseq texts (token_contents (updates a)) \<and> nonstream_extends st st' texts"
  proof (cases "random_token a")
    case None
    with assms have "st' = st" by (simp add: nonstream_iteration_shape)
    then show ?thesis by (intro exI [of _ "[]"]) (simp add: nonstream_extends_def)
  next
    case (Some tid)
    with assms have "nonstream_extends st st' (taken (updates a))"
      by (auto simp add: nonstream_iteration_shape collected_def nonstream_extends_def
          split: option.splits stop.splits if_splits)
    then show ?thesis using subseq_taken by blast
  qed
qed

lemma nonstream_extends_trans:
  assumes "nonstream_extends st st1 texts1" and "nonstream_extends st1 st2 texts2"
  shows "nonstream_extends st st2 (texts1 @ texts2)"
  using assms by (auto simp add: nonstream_extends_def)

lemma nonstream_extends_refl: "nonstream_extends st st []"
  by (simp add: nonstream_extends_def)

lemma nonstream_while_post:
  "\<not> success st \<Longrightarrow> retryCount st \<le> MAX_RETRIES \<Longrightarrow> nonstream_while script st = Some res \<Longrightarrow>
     nonstream_post script st res"
proof (induction script arbitrary: st)
  case Nil
  then have "res = Inr st" and "retryCount st = MAX_RETRIES" by (auto split: if_splits)
  with Nil.prems(1) show ?case
    using nonstream_extends_refl [of st] by (auto simp add: nonstream_post_def)
next
  case (Cons a rest)
  show ?case
  proof (cases "retryCount st < MAX_RETRIES")
    case False
    with Cons.prems have "res = Inr st" and "retryCount st = MAX_RETRIES" by auto
    with Cons.prems(1) show ?thesis
      using nonstream_extends_refl [of st] by (auto simp add: nonstream_post_def)
  next
    case True
    show ?thesis
    proof (cases "nonstream_iteration a st")
      case (Inl p)
      obtain r st1 where p: "p = (r, st1)" by (cases p)
      with Inl True Cons.prems(3) have res: "res = Inl (r, st1)" by simp
      from Inl p have it: "nonstream_iteration a st = Inl (r, st1)" by simp
      from nonstream_iteration_Inl(6) [OF it Cons.prems(1)] obtain texts where
        "subseq texts (token_contents (updates a))" and "nonstream_extends st st1 texts" by blast
      then have "\<exists>texts. subseq texts (script_contents (a # rest)) \<and> nonstream_extends st st1 texts"
        using subseq_script_head by blast
      with nonstream_iteration_Inl(1-5) [OF it Cons.prems(1)] res True show ?thesis
        by (simp add: nonstream_post_def)
    next
      case (Inr q)
      obtain st1 leave where q: "q = (st1, leave)" by (cases q)
      with Inr have it: "nonstream_iteration a st = Inr (st1, leave)" by simp
      note facts = nonstream_iteration_Inr [OF it Cons.prems(1)]
      show ?thesis
      proof (cases leave)
        case True
        with it \<open>retryCount st < MAX_RETRIES\<close> Cons.prems(3) have res: "res = Inr st1" by simp
        from facts(1) have "\<exists>texts. subseq texts (script_contents (a # rest)) \<and> nonstream_extends st st1 texts"
          using subseq_script_head subseq_taken by blast
        with res facts(2,4,6) True \<open>retryCount st < MAX_RETRIES\<close> show ?thesis
          by (simp add: nonstream_post_def)
      next
        case False
        with it \<open>retryCount st < MAX_RETRIES\<close> Cons.prems(3)
        have w: "nonstream_while rest st1 = Some res" by simp
        from facts(2) False have ns: "\<not> success st1" by simp
        from facts(3) \<open>retryCount st < MAX_RETRIES\<close> have "retryCount st1 \<le> MAX_RETRIES" by simp
        from Cons.IH [OF ns this w] have post: "nonstream_post rest st1 res" .
        have lift: "\<And>st'. \<exists>texts. subseq texts (script_contents rest) \<and> nonstream_extends st1 st' texts
                     \<Longrightarrow> \<exists>texts. subseq texts (script_contents (a # rest)) \<and> nonstream_extends st st' texts"
        proof -
          fix st' assume "\<exists>texts. subseq texts (script_contents rest) \<and> nonstream_extends st1 st' texts"
          then obtain texts2 where "subseq texts2 (script_contents rest)"
            and "nonstream_extends st1 st' texts2" by blast
          with facts(1) subseq_taken [of "updates a"]
          have "subseq (taken (updates a) @ texts2) (script_contents (a # rest))"
            and "nonstream_extends st st' (taken (updates a) @ texts2)"
            using subseq_script_Cons nonstream_extends_trans by blast+
          then show "\<exists>texts. subseq texts (script_contents (a # rest)) \<and> nonstream_extends st st' texts"
            by blast
        qed
        show ?thesis
        proof (cases res)
          case (Inl p)
          obtain r st' where "p = (r, st')" by (cases p)
          with Inl post lift [of st'] show ?thesis by (simp add: nonstream_post_def)
        next
          case (Inr st')
          with post lift [of st'] show ?thesis by (auto simp add: nonstream_post_def)
        qed
      qed
    qed
  qed
qed

lemma nonstream_while_terminates:
  "\<forall>a \<in> set script. closed_attempt a \<Longrightarrow> \<not> success st \<Longrightarrow>
     MAX_RETRIES - retryCount st \<le> length script \<Longrightarrow> nonstream_while script st \<noteq> None"
proof (induction script arbitrary: st)
  case Nil
  then show ?case by simp
next
  case (Cons a rest)
  show ?case
  proof (cases "retryCount st < MAX_RETRIES")
    case False
    then show ?thesis by simp
  next
    case True
    show ?thesis
    proof (cases "nonstream_iteration a st")
      case (Inl p)
      with True show ?thesis by simp
    next
      case (Inr q)
      obtain st1 leave where q: "q = (st1, leave)" by (cases q)
      with Inr have it: "nonstream_iteration a st = Inr (st1, leave)" by simp
      note facts = nonstream_iteration_Inr [OF it Cons.prems(2)]
      show ?thesis
      proof (cases leave)
        case True
        with it \<open>retryCount st < MAX_RETRIES\<close> show ?thesis by simp
      next
        case False
        from Cons.prems(1) have "closed_attempt a" by simp
        with facts(5) False have "retryCount st1 = retryCount st + 1" by simp
        with Cons.prems(3) have "MAX_RETRIES - retryCount st1 \<le> length rest" by simp
        moreover from facts(2) False have "\<not> success st1" by simp
        moreover from Cons.prems(1) have "\<forall>a \<in> set rest. closed_attempt a" by simp
        ultimately have "nonstream_while rest st1 \<noteq> None" using Cons.IH by blast
        with \<open>retryCount st < MAX_RETRIES\<close> it False show ?thesis by simp
      qed
    qed
  qed
qed

text \<open>
  A list of attempts after which the loop still asks for a token leaves variables from
  which any further attempts are run.
\<close>

lemma nonstream_while_running:
  "\<not> success st \<Longrightarrow> nonstream_while pre st = None \<Longrightarrow>
     \<exists>st1. \<not> success st1 \<and> retryCount st1 < MAX_RETRIES
       \<and> (\<forall>more. nonstream_while (pre @ more) st = nonstream_while more st1)"
proof (induction pre arbitrary: st)
  case Nil
  then have "retryCount st < MAX_RETRIES" by (simp split: if_splits)
  with Nil.prems(1) show ?case by (intro exI [of _ st]) simp
next
  case (Cons a rest)
  from Cons.prems(2) have lt: "retryCount st < MAX_RETRIES" by (simp split: if_splits)
  show ?case
  proof (cases "nonstream_iteration a st")
    case (Inl p)
    with lt Cons.prems(2) show ?thesis by simp
  next
    case (Inr q)
    obtain st1 leave where q: "q = (st1, leave)" by (cases q)
    with Inr have it: "nonstream_iteration a st = Inr (st1, leave)" by simp
    with lt Cons.prems(2) have nl: "\<not> leave" by (auto split: if_splits)
    with it lt Cons.prems(2) have w: "nonstream_while rest st1 = None" by simp
    from nonstream_iteration_Inr(2) [OF it Cons.prems(1)] nl have "\<not> success st1" by simp
    from Cons.IH [OF this w] obtain st2 where
      "\<not> success st2" and "retryCount st2 < MAX_RETRIES"
      and "\<forall>more. nonstream_while (rest @ more) st1 = nonstream_while more st2" by blast
    with it lt nl show ?thesis by (intro exI [of _ st2]) simp
  qed
qed

section \<open>The claims about the Messages endpoint\<close>

lemmas run_simps =
  messages_stream_def stream_start_def stream_iteration_def stream_try_def
  messages_nonstream_def nonstream_start_def nonstream_iteration_def
  MAX_RETRIES_def rate_limited_update_def rate_limited_exception_def
  or_empty_def truthy_str_def error_marker_def error_response_def ceil_quarter_div

text \<open>What the streaming branch enqueues, for any list of attempts on which it finishes.\<close>

lemma messages_stream_shape:
  assumes "messages_stream apiKeyInfo msgId rawModel script = Some r"
  shows "\<exists>texts errs. subseq texts (script_contents script)
           \<and> length errs \<le> 1 \<and> set errs \<subseteq> range error_marker
           \<and> charCount (final r) = length (concat texts)
           \<and> (success (final r) \<longrightarrow> errs = [])
           \<and> (\<not> success (final r) \<and> retryCount (final r) < MAX_RETRIES \<longrightarrow> errs \<noteq> [])
           \<and> events r =
               [evtMessageStart msgId rawModel, evtContentBlockStart, evtPing]
               @ map evtDelta texts @ map evtDelta errs
               @ [evtContentBlockStop, evtMessageDelta (ceil_quarter (length (concat texts))),
                  evtMessageStop]"
proof -
  from assms obtain st where w: "stream_while script (stream_start msgId rawModel) = Some st"
    and r: "r = \<lparr>events = pushed st @
                   [evtContentBlockStop, evtMessageDelta (ceil_quarter (charCount st)),
                    evtMessageStop],
                usage_calls = (if success st
                               then (case apiKeyInfo of None \<Rightarrow> [] | Some keyId \<Rightarrow> [keyId])
                               else []),
                final = st\<rparr>"
    by (auto simp add: messages_stream_def split: option.splits)
  have "\<not> success (stream_start msgId rawModel)" by (simp add: stream_start_def)
  from stream_while_extends [OF this w] obtain texts errs where
    sub: "subseq texts (script_contents script)"
    and ext: "stream_extends (stream_start msgId rawModel) st texts errs"
    and m: "\<not> success st \<and> retryCount st < MAX_RETRIES \<longrightarrow> errs \<noteq> []" by blast
  from ext r sub m show ?thesis
    by (intro exI [of _ texts] exI [of _ errs])
       (auto simp add: stream_extends_def stream_start_def length_concat)
qed

lemma messages_stream_terminates:
  assumes "\<forall>a \<in> set script. closed_attempt a" and "MAX_RETRIES \<le> length script"
  shows "messages_stream apiKeyInfo msgId rawModel script \<noteq> None"
proof -
  have "stream_while script (stream_start msgId rawModel) \<noteq> None"
    using assms by (intro stream_while_terminates) (simp_all add: stream_start_def)
  then show ?thesis by (auto simp add: messages_stream_def)
qed

text \<open>What the non-streaming branch returns, for any list of attempts on which it returns.\<close>

lemma messages_nonstream_post:
  assumes "messages_nonstream apiKeyInfo msgId rawModel script = Some r"
  shows "\<exists>res. nonstream_while script nonstream_start = Some res
           \<and> nonstream_post script nonstream_start res
           \<and> (case res of
                 Inl (resp, st) \<Rightarrow> r = \<lparr>response = resp, usage_calls_n = [], final_n = st\<rparr>
               | Inr st \<Rightarrow>
                   final_n r = st
                   \<and> (\<not> success st \<longrightarrow> usage_calls_n r = []
                          \<and> response r \<in> range (error_response 529 ''overloaded_error''))
                   \<and> (success st \<longrightarrow>
                          usage_calls_n r = (case apiKeyInfo of None \<Rightarrow> [] | Some keyId \<Rightarrow> [keyId])
                          \<and> response r = \<lparr>status = 200,
                                body = MessageBody msgId rawModel (fullContent st) 0
                                         (ceil_quarter (length (fullContent st)))\<rparr>))"
proof -
  from assms obtain res where w: "nonstream_while script nonstream_start = Some res"
    by (auto simp add: messages_nonstream_def split: option.splits)
  have "\<not> success nonstream_start" and "retryCount nonstream_start \<le> MAX_RETRIES"
    by (simp_all add: nonstream_start_def)
  from nonstream_while_post [OF this w] have post: "nonstream_post script nonstream_start res" .
  show ?thesis
  proof (cases res)
    case (Inl p)
    obtain resp st where "p = (resp, st)" by (cases p)
    with Inl w post assms show ?thesis by (simp add: messages_nonstream_def)
  next
    case (Inr st)
    with w post assms show ?thesis
      by (cases "success st") (auto simp add: messages_nonstream_def)
  qed
qed

lemma messages_nonstream_terminates:
  assumes "\<forall>a \<in> set script. closed_attempt a" and "MAX_RETRIES \<le> length script"
  shows "messages_nonstream apiKeyInfo msgId rawModel script \<noteq> None"
proof -
  have "nonstream_while script nonstream_start \<noteq> None"
    using assms by (intro nonstream_while_terminates) (simp_all add: nonstream_start_def)
  then show ?thesis
    by (auto simp add: messages_nonstream_def split: option.splits sum.splits prod.splits)
qed

text \<open>
  Claim C7. The output-token estimate of Protocol B is the ceiling of a quarter of the
  number of characters of the text deltas of the call. Streaming: the events are the three
  opening events, one delta for each text taken from the streams (in order), at most one
  error marker, and the three closing events, where \<open>message_delta\<close> carries
  \<open>\<lceil>totalChars / 4\<rceil>\<close> for the total length of those texts (the marker is not counted).
  Non-streaming: the text of a success body is the concatenation of the texts taken from
  the streams, and \<open>usage.output_tokens\<close> is \<open>\<lceil>length / 4\<rceil>\<close> of it.
\<close>

theorem output_token_estimate:
  "(\<forall>r. messages_stream apiKeyInfo msgId rawModel script = Some r \<longrightarrow>
      (\<exists>texts errs. subseq texts (script_contents script)
         \<and> length errs \<le> 1 \<and> set errs \<subseteq> range error_marker
         \<and> charCount (final r) = length (concat texts)
         \<and> events r =
             [evtMessageStart msgId rawModel, evtContentBlockStart, evtPing]
             @ map evtDelta texts @ map evtDelta errs
             @ [evtContentBlockStop,
                evtMessageDelta (nat \<lceil>real (length (concat texts)) / 4\<rceil>),
                evtMessageStop]))
   \<and> (\<forall>r i m full inp out.
        messages_nonstream apiKeyInfo msgId rawModel script = Some r
        \<and> body (response r) = MessageBody i m full inp out \<longrightarrow>
          (\<exists>texts. subseq texts (script_contents script) \<and> full = concat texts)
          \<and> full = fullContent (final_n r)
          \<and> out = nat \<lceil>real (length full) / 4\<rceil>)"
proof (intro conjI allI impI)
  fix r assume "messages_stream apiKeyInfo msgId rawModel script = Some r"
  from messages_stream_shape [OF this]
  show "\<exists>texts errs. subseq texts (script_contents script)
         \<and> length errs \<le> 1 \<and> set errs \<subseteq> range error_marker
         \<and> charCount (final r) = length (concat texts)
         \<and> events r =
             [evtMessageStart msgId rawModel, evtContentBlockStart, evtPing]
             @ map evtDelta texts @ map evtDelta errs
             @ [evtContentBlockStop,
                evtMessageDelta (nat \<lceil>real (length (concat texts)) / 4\<rceil>),
                evtMessageStop]"
    unfolding ceil_quarter_def by blast
next
  fix r i m full inp out
  assume a: "messages_nonstream apiKeyInfo msgId rawModel script = Some r
        \<and> body (response r) = MessageBody i m full inp out"
  from messages_nonstream_post [of apiKeyInfo msgId rawModel script r] a obtain res where
    post: "nonstream_post script nonstream_start res"
    and c: "case res of
                 Inl (resp, st) \<Rightarrow> r = \<lparr>response = resp, usage_calls_n = [], final_n = st\<rparr>
               | Inr st \<Rightarrow>
                   final_n r = st
                   \<and> (\<not> success st \<longrightarrow> usage_calls_n r = []
                          \<and> response r \<in> range (error_response 529 ''overloaded_error''))
                   \<and> (success st \<longrightarrow>
                          usage_calls_n r = (case apiKeyInfo of None \<Rightarrow> [] | Some keyId \<Rightarrow> [keyId])
                          \<and> response r = \<lparr>status = 200,
                                body = MessageBody msgId rawModel (fullContent st) 0
                                         (ceil_quarter (length (fullContent st)))\<rparr>)"
    by blast
  have "((\<exists>texts. subseq texts (script_contents script) \<and> full = concat texts)
          \<and> full = fullContent (final_n r))
          \<and> out = nat \<lceil>real (length full) / 4\<rceil>"
  proof (cases res)
    case (Inl p)
    obtain resp st where "p = (resp, st)" by (cases p)
    with Inl post c a show ?thesis
      by (auto simp add: nonstream_post_def error_response_def)
  next
    case (Inr st)
    with post c a show ?thesis
      by (cases "success st")
         (auto simp add: nonstream_post_def error_response_def nonstream_extends_def
            nonstream_start_def ceil_quarter_def)
  qed
  then show "\<exists>texts. subseq texts (script_contents script) \<and> full = concat texts"
    and "full = fullContent (final_n r)"
    and "out = nat \<lceil>real (length full) / 4\<rceil>" by blast+
qed

theorem output_token_estimate_witness:
  "(\<exists>r. messages_stream (Some ''key'') ''msg_1'' ''claude'' run_retry_then_done = Some r
      \<and> (\<exists>texts errs. subseq texts (script_contents run_retry_then_done)
         \<and> length errs \<le> 1 \<and> set errs \<subseteq> range error_marker
         \<and> charCount (final r) = length (concat texts)
         \<and> events r =
             [evtMessageStart ''msg_1'' ''claude'', evtContentBlockStart, evtPing]
             @ map evtDelta texts @ map evtDelta errs
             @ [evtContentBlockStop,
                evtMessageDelta (nat \<lceil>real (length (concat texts)) / 4\<rceil>),
                evtMessageStop])
      \<and> events r =
             [evtMessageStart ''msg_1'' ''claude'', evtContentBlockStart, evtPing,
              evtDelta ''Hello'', evtDelta ''Hi there'',
              evtContentBlockStop, evtMessageDelta 4, evtMessageStop])
   \<and> (\<exists>r. messages_nonstream (Some ''key'') ''msg_1'' ''claude'' run_retry_then_done = Some r
        \<and> body (response r) = MessageBody ''msg_1'' ''claude'' ''HelloHi there'' 0 4
        \<and> (\<exists>texts. subseq texts (script_contents run_retry_then_done)
              \<and> ''HelloHi there'' = concat texts)
        \<and> ''HelloHi there'' = fullContent (final_n r)
        \<and> (4::nat) = nat \<lceil>real (length ''HelloHi there'') / 4\<rceil>)"
proof -
  obtain r1 where r1: "messages_stream (Some ''key'') ''msg_1'' ''claude'' run_retry_then_done = Some r1"
    and e1: "events r1 =
             [evtMessageStart ''msg_1'' ''claude'', evtContentBlockStart, evtPing,
              evtDelta ''Hello'', evtDelta ''Hi there'',
              evtContentBlockStop, evtMessageDelta 4, evtMessageStop]"
    by (simp add: run_retry_then_done_def run_simps)
  obtain r2 where r2: "messages_nonstream (Some ''key'') ''msg_1'' ''claude'' run_retry_then_done = Some r2"
    and b2: "body (response r2) = MessageBody ''msg_1'' ''claude'' ''HelloHi there'' 0 4"
    by (simp add: run_retry_then_done_def run_simps)
  note inst = output_token_estimate [of "Some ''key''" "''msg_1''" "''claude''" run_retry_then_done]
  from inst r1 e1 have "\<exists>r. messages_stream (Some ''key'') ''msg_1'' ''claude'' run_retry_then_done = Some r
      \<and> (\<exists>texts errs. subseq texts (script_contents run_retry_then_done)
         \<and> length errs \<le> 1 \<and> set errs \<subseteq> range error_marker
         \<and> charCount (final r) = length (concat texts)
         \<and> events r =
             [evtMessageStart ''msg_1'' ''claude'', evtContentBlockStart, evtPing]
             @ map evtDelta texts @ map evtDelta errs
             @ [evtContentBlockStop,
                evtMessageDelta (nat \<lceil>real (length (concat texts)) / 4\<rceil>),
                evtMessageStop])
      \<and> events r =
             [evtMessageStart ''msg_1'' ''claude'', evtContentBlockStart, evtPing,
              evtDelta ''Hello'', evtDelta ''Hi there'',
              evtContentBlockStop, evtMessageDelta 4, evtMessageStop]"
    by blast
  moreover from inst r2 b2 have "\<exists>r. messages_nonstream (Some ''key'') ''msg_1'' ''claude'' run_retry_then_done = Some r
        \<and> body (response r) = MessageBody ''msg_1'' ''claude'' ''HelloHi there'' 0 4
        \<and> (\<exists>texts. subseq texts (script_contents run_retry_then_done)
              \<and> ''HelloHi there'' = concat texts)
        \<and> ''HelloHi there'' = fullContent (final_n r)
        \<and> (4::nat) = nat \<lceil>real (length ''HelloHi there'') / 4\<rceil>"
    by blast
  ultimately show ?thesis by blast
qed

lemma count_delta_names:
  "count_list (map (event_name \<circ> evtDelta) ts) n =
     (if n = ''content_block_delta'' then length ts else 0)"
  by (induction ts) auto

text \<open>What one pass through the loop does, by the kind of the attempt.\<close>

lemma forwarded_append: "forwarded (forwarded st xs) ys = forwarded st (xs @ ys)"
  by (simp add: forwarded_def)

lemma stream_while_Cons:
  "retryCount st < MAX_RETRIES \<Longrightarrow>
     stream_while (a # rest) st =
       (case stream_iteration a st of
          (st', leave) \<Rightarrow> if leave then Some st' else stream_while rest st')"
  by simp

lemma stream_while_stop:
  "\<not> retryCount st < MAX_RETRIES \<Longrightarrow> stream_while script st = Some st"
  by simp

lemma stream_iteration_idle:
  "idle a \<Longrightarrow> \<not> success st \<Longrightarrow>
     stream_iteration a st = (forwarded st (taken (updates a)), False)"
  by (auto simp add: idle_def stream_iteration_def stream_try_def stream_for_await_shape
        forwarded_def)

lemma stream_iteration_rotating:
  "rotating a \<Longrightarrow> \<not> success st \<Longrightarrow>
     stream_iteration a st =
       ((forwarded st (taken (updates a)))
          \<lparr>excludedTokenIds := excludedTokenIds st @ rotated_ids [a],
           retryCount := retryCount st + 1\<rparr>, False)"
  by (auto simp add: rotating_def rotated_ids_def stream_iteration_def stream_try_def
        stream_for_await_shape forwarded_def split: stop.splits option.splits)

lemma stream_iteration_error:
  "random_token a = Some tid \<Longrightarrow> ending (updates a) = StopError m \<Longrightarrow>
     \<not> rate_limited_update (or_empty m) \<Longrightarrow>
     stream_iteration a st =
       ((forwarded st (taken (updates a)))
          \<lparr>pushed := pushed st @ map evtDelta (taken (updates a))
                      @ [evtDelta (error_marker (or_empty m))]\<rparr>, True)"
  by (simp add: stream_iteration_def stream_try_def stream_for_await_shape)

lemma stream_iteration_exception:
  "random_token a = Some tid \<Longrightarrow> ending (updates a) = Unstopped \<Longrightarrow>
     throws a = Some message \<Longrightarrow> \<not> rate_limited_exception message \<Longrightarrow>
     stream_iteration a st =
       ((forwarded st (taken (updates a)))
          \<lparr>pushed := pushed st @ map evtDelta (taken (updates a))
                      @ [evtDelta (error_marker message)]\<rparr>, True)"
  by (simp add: stream_iteration_def stream_try_def stream_for_await_shape forwarded_def)

lemma stream_iteration_no_token:
  "random_token a = None \<Longrightarrow>
     stream_iteration a st =
       (st\<lparr>pushed := pushed st @
              [evtDelta (error_marker (if 0 < length (excludedTokenIds st)
                                       then ''All tokens rate limited''
                                       else ''No available tokens''))]\<rparr>, True)"
  by (simp add: stream_iteration_def)

lemma stream_iteration_done:
  "random_token a = Some tid \<Longrightarrow> ending (updates a) = StopDone \<Longrightarrow>
     stream_iteration a st = ((forwarded st (taken (updates a)))\<lparr>success := True\<rparr>, True)"
  by (simp add: stream_iteration_def stream_try_def stream_for_await_shape)

text \<open>The variables after a run of attempts that all let the loop go on.\<close>

lemma rotations_Cons:
  "rotations (a # pre) = (if rotating a then 1 else 0) + rotations pre"
  by (simp add: rotations_def)

lemma rotated_ids_Cons: "rotated_ids (a # pre) = rotated_ids [a] @ rotated_ids pre"
  by (simp add: rotated_ids_def)

lemma rotated_ids_idle: "\<not> rotating a \<Longrightarrow> rotated_ids [a] = []"
  by (simp add: rotated_ids_def)

lemma length_rotated_ids: "length (rotated_ids pre) = rotations pre"
  by (induction pre)
     (auto simp add: rotated_ids_def rotations_def rotating_def split: option.splits)

lemma taken_texts_Cons: "taken_texts (a # pre) = taken (updates a) @ taken_texts pre"
  by (simp add: taken_texts_def)

lemma taken_texts_snoc: "taken_texts (pre @ [a]) = taken_texts pre @ taken (updates a)"
  by (simp add: taken_texts_def)

lemma stream_while_passing:
  "list_all passing pre \<Longrightarrow> \<not> success st \<Longrightarrow> retryCount st + rotations pre < MAX_RETRIES \<Longrightarrow>
     stream_while (pre @ rest) st =
       stream_while rest
         ((forwarded st (taken_texts pre))
            \<lparr>excludedTokenIds := excludedTokenIds st @ rotated_ids pre,
             retryCount := retryCount st + rotations pre\<rparr>)"
proof (induction pre arbitrary: st)
  case Nil
  show ?case by (simp add: taken_texts_def rotated_ids_def rotations_def forwarded_def)
next
  case (Cons a pre)
  from Cons.prems have r: "retryCount st < MAX_RETRIES" and p: "list_all passing pre"
    and a: "passing a" by simp_all
  show ?case
  proof (cases "rotating a")
    case True
    let ?st1 = "(forwarded st (taken (updates a)))
          \<lparr>excludedTokenIds := excludedTokenIds st @ rotated_ids [a],
           retryCount := retryCount st + 1\<rparr>"
    from True Cons.prems(2) have i: "stream_iteration a st = (?st1, False)"
      by (rule stream_iteration_rotating)
    have s1: "\<not> success ?st1" using Cons.prems(2) by (simp add: forwarded_def)
    have r1: "retryCount ?st1 + rotations pre < MAX_RETRIES"
      using Cons.prems(3) True by (simp add: rotations_Cons)
    have "stream_while ((a # pre) @ rest) st = stream_while (pre @ rest) ?st1"
      using r i by (simp del: stream_while.simps add: stream_while_Cons)
    also note Cons.IH [OF p s1 r1]
    also have "(forwarded ?st1 (taken_texts pre))
            \<lparr>excludedTokenIds := excludedTokenIds ?st1 @ rotated_ids pre,
             retryCount := retryCount ?st1 + rotations pre\<rparr>
        = (forwarded st (taken_texts (a # pre)))
            \<lparr>excludedTokenIds := excludedTokenIds st @ rotated_ids (a # pre),
             retryCount := retryCount st + rotations (a # pre)\<rparr>"
      using True
      by (simp add: forwarded_def taken_texts_Cons rotations_Cons rotated_ids_Cons [of a pre])
    finally show ?thesis .
  next
    case False
    with a have idle: "idle a" by (simp add: passing_def)
    let ?st1 = "forwarded st (taken (updates a))"
    from idle Cons.prems(2) have i: "stream_iteration a st = (?st1, False)"
      by (rule stream_iteration_idle)
    have s1: "\<not> success ?st1" using Cons.prems(2) by (simp add: forwarded_def)
    have r1: "retryCount ?st1 + rotations pre < MAX_RETRIES"
      using Cons.prems(3) False by (simp add: rotations_Cons forwarded_def)
    have "stream_while ((a # pre) @ rest) st = stream_while (pre @ rest) ?st1"
      using r i by (simp del: stream_while.simps add: stream_while_Cons)
    also note Cons.IH [OF p s1 r1]
    also have "(forwarded ?st1 (taken_texts pre))
            \<lparr>excludedTokenIds := excludedTokenIds ?st1 @ rotated_ids pre,
             retryCount := retryCount ?st1 + rotations pre\<rparr>
        = (forwarded st (taken_texts (a # pre)))
            \<lparr>excludedTokenIds := excludedTokenIds st @ rotated_ids (a # pre),
             retryCount := retryCount st + rotations (a # pre)\<rparr>"
      using False
      by (simp add: forwarded_def taken_texts_Cons rotations_Cons rotated_ids_Cons [of a pre]
            rotated_ids_idle)
    finally show ?thesis .
  qed
qed

lemma stream_while_reached:
  assumes "list_all passing pre" and "rotations pre < MAX_RETRIES"
  shows "stream_while (pre @ rest) (stream_start msgId rawModel)
           = stream_while rest (reached msgId rawModel pre)"
proof -
  have "stream_while (pre @ rest) (stream_start msgId rawModel) =
       stream_while rest
         ((forwarded (stream_start msgId rawModel) (taken_texts pre))
            \<lparr>excludedTokenIds := excludedTokenIds (stream_start msgId rawModel) @ rotated_ids pre,
             retryCount := retryCount (stream_start msgId rawModel) + rotations pre\<rparr>)"
    using assms by (intro stream_while_passing) (simp_all add: stream_start_def)
  then show ?thesis by (simp add: reached_def stream_start_def del: stream_while.simps)
qed

lemma reached_simps:
  "pushed (reached msgId rawModel pre) =
     [evtMessageStart msgId rawModel, evtContentBlockStart, evtPing]
     @ map evtDelta (taken_texts pre)"
  "charCount (reached msgId rawModel pre) = length (concat (taken_texts pre))"
  "excludedTokenIds (reached msgId rawModel pre) = rotated_ids pre"
  "retryCount (reached msgId rawModel pre) = rotations pre"
  "success (reached msgId rawModel pre) = False"
  by (simp_all add: reached_def forwarded_def stream_start_def length_concat)

text \<open>The run that ends at attempt \<open>a\<close> after the attempts \<open>pre\<close>, by the kind of \<open>a\<close>.\<close>

lemma messages_stream_last:
  assumes "list_all passing pre" and "rotations pre < MAX_RETRIES"
    and "stream_iteration a (reached msgId rawModel pre) = (st', True)"
  shows "messages_stream apiKeyInfo msgId rawModel (pre @ a # rest) =
           Some \<lparr>events = pushed st' @
                   [evtContentBlockStop, evtMessageDelta (ceil_quarter (charCount st')),
                    evtMessageStop],
                 usage_calls = (if success st'
                                then (case apiKeyInfo of None \<Rightarrow> [] | Some keyId \<Rightarrow> [keyId])
                                else []),
                 final = st'\<rparr>"
proof -
  have "stream_while (a # rest) (reached msgId rawModel pre) = Some st'"
    using assms(2,3) by (simp add: stream_while_Cons reached_simps del: stream_while.simps)
  with stream_while_reached [OF assms(1,2), of "a # rest" msgId rawModel]
  show ?thesis by (simp add: messages_stream_def del: stream_while.simps)
qed

lemma messages_stream_error:
  assumes "list_all passing pre" and "rotations pre < MAX_RETRIES"
    and "random_token a = Some tid" and "ending (updates a) = StopError m"
    and "\<not> rate_limited_update (or_empty m)"
  shows "\<exists>r. messages_stream apiKeyInfo msgId rawModel (pre @ a # rest) = Some r
           \<and> events r = envelope msgId rawModel (taken_texts (pre @ [a]))
                          [error_marker (or_empty m)]
           \<and> \<not> success (final r) \<and> usage_calls r = []"
  by (simp add: messages_stream_last [OF assms(1,2) stream_iteration_error [OF assms(3,4,5)]]
        reached_simps forwarded_def envelope_def taken_texts_snoc length_concat)

lemma messages_stream_exception:
  assumes "list_all passing pre" and "rotations pre < MAX_RETRIES"
    and "random_token a = Some tid" and "ending (updates a) = Unstopped"
    and "throws a = Some message" and "\<not> rate_limited_exception message"
  shows "\<exists>r. messages_stream apiKeyInfo msgId rawModel (pre @ a # rest) = Some r
           \<and> events r = envelope msgId rawModel (taken_texts (pre @ [a]))
                          [error_marker message]
           \<and> \<not> success (final r) \<and> usage_calls r = []"
  by (simp add: messages_stream_last [OF assms(1,2) stream_iteration_exception [OF assms(3,4,5,6)]]
        reached_simps forwarded_def envelope_def taken_texts_snoc length_concat)

lemma messages_stream_no_token:
  assumes "list_all passing pre" and "rotations pre < MAX_RETRIES"
    and "random_token a = None"
  shows "\<exists>r. messages_stream apiKeyInfo msgId rawModel (pre @ a # rest) = Some r
           \<and> events r = envelope msgId rawModel (taken_texts pre)
                          [error_marker (if 0 < rotations pre then ''All tokens rate limited''
                                         else ''No available tokens'')]
           \<and> \<not> success (final r) \<and> usage_calls r = []"
  by (simp add: messages_stream_last [OF assms(1,2) stream_iteration_no_token [OF assms(3)]]
        reached_simps envelope_def length_rotated_ids)

lemma messages_stream_done:
  assumes "list_all passing pre" and "rotations pre < MAX_RETRIES"
    and "random_token a = Some tid" and "ending (updates a) = StopDone"
  shows "\<exists>r. messages_stream apiKeyInfo msgId rawModel (pre @ a # rest) = Some r
           \<and> events r = envelope msgId rawModel (taken_texts (pre @ [a])) []
           \<and> success (final r)"
  by (simp add: messages_stream_last [OF assms(1,2) stream_iteration_done [OF assms(3,4)]]
        reached_simps forwarded_def envelope_def taken_texts_snoc length_concat)

lemma messages_stream_ceiling:
  assumes "list_all passing pre" and "rotating a" and "rotations pre + 1 = MAX_RETRIES"
  shows "\<exists>r. messages_stream apiKeyInfo msgId rawModel (pre @ a # rest) = Some r
           \<and> events r = envelope msgId rawModel (taken_texts (pre @ [a])) []
           \<and> \<not> success (final r) \<and> retryCount (final r) = MAX_RETRIES"
proof -
  from assms(3) have l: "rotations pre < MAX_RETRIES" by simp
  let ?st1 = "(forwarded (reached msgId rawModel pre) (taken (updates a)))
          \<lparr>excludedTokenIds := excludedTokenIds (reached msgId rawModel pre) @ rotated_ids [a],
           retryCount := retryCount (reached msgId rawModel pre) + 1\<rparr>"
  have i: "stream_iteration a (reached msgId rawModel pre) = (?st1, False)"
    using assms(2) by (intro stream_iteration_rotating) (simp_all add: reached_simps)
  have "\<not> retryCount ?st1 < MAX_RETRIES" using assms(3) by (simp add: reached_simps)
  then have "stream_while rest ?st1 = Some ?st1" by (rule stream_while_stop)
  with i l have "stream_while (a # rest) (reached msgId rawModel pre) = Some ?st1"
    by (simp add: stream_while_Cons reached_simps del: stream_while.simps)
  with stream_while_reached [OF assms(1) l, of "a # rest" msgId rawModel] assms(3)
  show ?thesis
    by (simp add: messages_stream_def reached_simps forwarded_def envelope_def taken_texts_snoc
          length_concat del: stream_while.simps)
qed

text \<open>
  Claim C2. Whenever the streaming branch finishes, whatever happened in the retry loop,
  the events are \<open>message_start\<close>, \<open>content_block_start\<close>, \<open>ping\<close>, then deltas only, then
  \<open>content_block_stop\<close>, \<open>message_delta\<close>, \<open>message_stop\<close>; so there is exactly one
  \<open>content_block_start\<close> and one \<open>content_block_stop\<close>. The deltas carry token contents of
  the streams, in their order, followed by at most one marker \<open>[Error: \<dots>]\<close>; there is no
  marker after a success, and exactly one when the call fails with retries left. The branch
  does finish within \<open>MAX_RETRIES\<close> attempts when every stream announces its end.

  What is sent is fixed by what happened. After attempts that all let the loop go on, fewer
  than \<open>MAX_RETRIES\<close> of them rotating, the next attempt ends the call: an error update
  that is no rate limit, or an exception that is none, is rendered as the deltas taken so
  far and one delta with the marker of its message; a store without a token as one marker
  delta that says so; a done update as the deltas alone. When the last permitted rotation
  is used up the envelope closes with the deltas alone. In every case the envelope is
  closed and the call is no success unless a done update was seen.
\<close>

theorem protocol_b_envelope:
  "(\<forall>r. messages_stream apiKeyInfo msgId rawModel script = Some r \<longrightarrow>
      (\<exists>texts errs.
          subseq texts (script_contents script)
          \<and> length errs \<le> 1 \<and> set errs \<subseteq> range error_marker
          \<and> (success (final r) \<longrightarrow> errs = [])
          \<and> (\<not> success (final r) \<and> retryCount (final r) < MAX_RETRIES \<longrightarrow> length errs = 1)
          \<and> events r =
              [evtMessageStart msgId rawModel, evtContentBlockStart, evtPing]
              @ map evtDelta texts @ map evtDelta errs
              @ [evtContentBlockStop, evtMessageDelta (ceil_quarter (length (concat texts))),
                 evtMessageStop])
      \<and> count_list (map event_name (events r)) ''message_start'' = 1
      \<and> count_list (map event_name (events r)) ''content_block_start'' = 1
      \<and> count_list (map event_name (events r)) ''content_block_stop'' = 1
      \<and> count_list (map event_name (events r)) ''message_delta'' = 1
      \<and> count_list (map event_name (events r)) ''message_stop'' = 1)
   \<and> ((\<forall>a \<in> set script. closed_attempt a) \<and> MAX_RETRIES \<le> length script \<longrightarrow>
        messages_stream apiKeyInfo msgId rawModel script \<noteq> None)
   \<and> (\<forall>pre a rest tid m.
        list_all passing pre \<and> rotations pre < MAX_RETRIES
        \<and> random_token a = Some tid \<and> ending (updates a) = StopError m
        \<and> \<not> rate_limited_update (or_empty m) \<longrightarrow>
          (\<exists>r. messages_stream apiKeyInfo msgId rawModel (pre @ a # rest) = Some r
             \<and> events r = envelope msgId rawModel (taken_texts (pre @ [a]))
                            [error_marker (or_empty m)]
             \<and> \<not> success (final r) \<and> usage_calls r = []))
   \<and> (\<forall>pre a rest tid message.
        list_all passing pre \<and> rotations pre < MAX_RETRIES
        \<and> random_token a = Some tid \<and> ending (updates a) = Unstopped
        \<and> throws a = Some message \<and> \<not> rate_limited_exception message \<longrightarrow>
          (\<exists>r. messages_stream apiKeyInfo msgId rawModel (pre @ a # rest) = Some r
             \<and> events r = envelope msgId rawModel (taken_texts (pre @ [a]))
                            [error_marker message]
             \<and> \<not> success (final r) \<and> usage_calls r = []))
   \<and> (\<forall>pre a rest.
        list_all passing pre \<and> rotations pre < MAX_RETRIES \<and> random_token a = None \<longrightarrow>
          (\<exists>r. messages_stream apiKeyInfo msgId rawModel (pre @ a # rest) = Some r
             \<and> events r = envelope msgId rawModel (taken_texts pre)
                            [error_marker (if 0 < rotations pre then ''All tokens rate limited''
                                           else ''No available tokens'')]
             \<and> \<not> success (final r) \<and> usage_calls r = []))
   \<and> (\<forall>pre a rest tid.
        list_all passing pre \<and> rotations pre < MAX_RETRIES
        \<and> random_token a = Some tid \<and> ending (updates a) = StopDone \<longrightarrow>
          (\<exists>r. messages_stream apiKeyInfo msgId rawModel (pre @ a # rest) = Some r
             \<and> events r = envelope msgId rawModel (taken_texts (pre @ [a])) []
             \<and> success (final r)))
   \<and> (\<forall>pre a rest.
        list_all passing pre \<and> rotating a \<and> rotations pre + 1 = MAX_RETRIES \<longrightarrow>
          (\<exists>r. messages_stream apiKeyInfo msgId rawModel (pre @ a # rest) = Some r
             \<and> events r = envelope msgId rawModel (taken_texts (pre @ [a])) []
             \<and> \<not> success (final r) \<and> retryCount (final r) = MAX_RETRIES))"
proof (intro conjI allI impI)
  fix r assume a: "messages_stream apiKeyInfo msgId rawModel script = Some r"
  from messages_stream_shape [OF a] obtain texts errs where
    t: "subseq texts (script_contents script)"
    and l: "length errs \<le> 1" and m: "set errs \<subseteq> range error_marker"
    and s: "success (final r) \<longrightarrow> errs = []"
    and f: "\<not> success (final r) \<and> retryCount (final r) < MAX_RETRIES \<longrightarrow> errs \<noteq> []"
    and e: "events r =
               [evtMessageStart msgId rawModel, evtContentBlockStart, evtPing]
               @ map evtDelta texts @ map evtDelta errs
               @ [evtContentBlockStop, evtMessageDelta (ceil_quarter (length (concat texts))),
                  evtMessageStop]"
    by blast
  from l f have "\<not> success (final r) \<and> retryCount (final r) < MAX_RETRIES \<longrightarrow> length errs = 1"
    by (cases errs) auto
  with t l m s e show "\<exists>texts errs.
          subseq texts (script_contents script)
          \<and> length errs \<le> 1 \<and> set errs \<subseteq> range error_marker
          \<and> (success (final r) \<longrightarrow> errs = [])
          \<and> (\<not> success (final r) \<and> retryCount (final r) < MAX_RETRIES \<longrightarrow> length errs = 1)
          \<and> events r =
              [evtMessageStart msgId rawModel, evtContentBlockStart, evtPing]
              @ map evtDelta texts @ map evtDelta errs
              @ [evtContentBlockStop, evtMessageDelta (ceil_quarter (length (concat texts))),
                 evtMessageStop]"
    by blast
  from e show "count_list (map event_name (events r)) ''message_start'' = 1"
    by (simp add: count_delta_names)
  from e show "count_list (map event_name (events r)) ''content_block_start'' = 1"
    by (simp add: count_delta_names)
  from e show "count_list (map event_name (events r)) ''content_block_stop'' = 1"
    by (simp add: count_delta_names)
  from e show "count_list (map event_name (events r)) ''message_delta'' = 1"
    by (simp add: count_delta_names)
  from e show "count_list (map event_name (events r)) ''message_stop'' = 1"
    by (simp add: count_delta_names)
next
  assume "(\<forall>a \<in> set script. closed_attempt a) \<and> MAX_RETRIES \<le> length script"
  then show "messages_stream apiKeyInfo msgId rawModel script \<noteq> None"
    using messages_stream_terminates by blast
next
  fix pre rest :: "chat_attempt list" and a :: chat_attempt and tid m
  assume "list_all passing pre \<and> rotations pre < MAX_RETRIES
        \<and> random_token a = Some tid \<and> ending (updates a) = StopError m
        \<and> \<not> rate_limited_update (or_empty m)"
  then show "\<exists>r. messages_stream apiKeyInfo msgId rawModel (pre @ a # rest) = Some r
             \<and> events r = envelope msgId rawModel (taken_texts (pre @ [a]))
                            [error_marker (or_empty m)]
             \<and> \<not> success (final r) \<and> usage_calls r = []"
    by (intro messages_stream_error) simp_all
next
  fix pre rest :: "chat_attempt list" and a :: chat_attempt and tid message
  assume "list_all passing pre \<and> rotations pre < MAX_RETRIES
        \<and> random_token a = Some tid \<and> ending (updates a) = Unstopped
        \<and> throws a = Some message \<and> \<not> rate_limited_exception message"
  then show "\<exists>r. messages_stream apiKeyInfo msgId rawModel (pre @ a # rest) = Some r
             \<and> events r = envelope msgId rawModel (taken_texts (pre @ [a]))
                            [error_marker message]
             \<and> \<not> success (final r) \<and> usage_calls r = []"
    by (intro messages_stream_exception) simp_all
next
  fix pre rest :: "chat_attempt list" and a :: chat_attempt
  assume "list_all passing pre \<and> rotations pre < MAX_RETRIES \<and> random_token a = None"
  then show "\<exists>r. messages_stream apiKeyInfo msgId rawModel (pre @ a # rest) = Some r
             \<and> events r = envelope msgId rawModel (taken_texts pre)
                            [error_marker (if 0 < rotations pre then ''All tokens rate limited''
                                           else ''No available tokens'')]
             \<and> \<not> success (final r) \<and> usage_calls r = []"
    by (intro messages_stream_no_token) simp_all
next
  fix pre rest :: "chat_attempt list" and a :: chat_attempt and tid
  assume "list_all passing pre \<and> rotations pre < MAX_RETRIES
        \<and> random_token a = Some tid \<and> ending (updates a) = StopDone"
  then show "\<exists>r. messages_stream apiKeyInfo msgId rawModel (pre @ a # rest) = Some r
             \<and> events r = envelope msgId rawModel (taken_texts (pre @ [a])) []
             \<and> success (final r)"
    by (intro messages_stream_done) simp_all
next
  fix pre rest :: "chat_attempt list" and a :: chat_attempt
  assume "list_all passing pre \<and> rotating a \<and> rotations pre + 1 = MAX_RETRIES"
  then show "\<exists>r. messages_stream apiKeyInfo msgId rawModel (pre @ a # rest) = Some r
             \<and> events r = envelope msgId rawModel (taken_texts (pre @ [a])) []
             \<and> \<not> success (final r) \<and> retryCount (final r) = MAX_RETRIES"
    by (intro messages_stream_ceiling) simp_all
qed

lemmas attempt_simps =
  passing_def rotating_def idle_def rotations_def taken_texts_def envelope_def
  rate_limited_attempt_def idle_attempt_def raising_attempt_def
  rate_limited_update_def rate_limited_exception_def or_empty_def truthy_str_def
  error_marker_def ceil_quarter_div MAX_RETRIES_def

theorem protocol_b_envelope_witness:
  "(\<exists>r. messages_stream None ''msg_1'' ''claude''
           ([idle_attempt, rate_limited_attempt ''t1'']
            @ \<lparr>random_token = Some ''t2'',
                updates = [ChatToken (Some ''Hello''), ChatError (Some ''HTTP 500: upstream''),
                           ChatToken (Some ''lost'')],
                throws = None\<rparr> # []) = Some r
      \<and> events r =
          [evtMessageStart ''msg_1'' ''claude'', evtContentBlockStart, evtPing,
           evtDelta ''One '', evtDelta ''Hello'', evtDelta ''[Error: HTTP 500: upstream]'',
           evtContentBlockStop, evtMessageDelta 3, evtMessageStop]
      \<and> \<not> success (final r)
      \<and> count_list (map event_name (events r)) ''content_block_start'' = 1
      \<and> count_list (map event_name (events r)) ''content_block_stop'' = 1)
   \<and> (\<exists>r. messages_stream None ''msg_1'' ''claude''
           ([rate_limited_attempt ''t1''] @ raising_attempt # []) = Some r
      \<and> events r =
          [evtMessageStart ''msg_1'' ''claude'', evtContentBlockStart, evtPing,
           evtDelta ''Hi'', evtDelta ''[Error: socket hang up]'',
           evtContentBlockStop, evtMessageDelta 1, evtMessageStop]
      \<and> \<not> success (final r))
   \<and> (\<exists>r. messages_stream None ''msg_1'' ''claude''
           ([rate_limited_attempt ''t1'']
            @ \<lparr>random_token = None, updates = [], throws = None\<rparr> # []) = Some r
      \<and> events r =
          [evtMessageStart ''msg_1'' ''claude'', evtContentBlockStart, evtPing,
           evtDelta ''[Error: All tokens rate limited]'',
           evtContentBlockStop, evtMessageDelta 0, evtMessageStop]
      \<and> \<not> success (final r))
   \<and> (\<exists>r. messages_stream None ''msg_1'' ''claude''
           ([] @ \<lparr>random_token = None, updates = [], throws = None\<rparr> # []) = Some r
      \<and> events r =
          [evtMessageStart ''msg_1'' ''claude'', evtContentBlockStart, evtPing,
           evtDelta ''[Error: No available tokens]'',
           evtContentBlockStop, evtMessageDelta 0, evtMessageStop]
      \<and> \<not> success (final r))
   \<and> (\<exists>r. messages_stream None ''msg_1'' ''claude''
           ([rate_limited_attempt ''t1'', idle_attempt]
            @ \<lparr>random_token = Some ''t2'', updates = [ChatToken (Some ''Hi there''), ChatDone],
                throws = None\<rparr> # []) = Some r
      \<and> events r =
          [evtMessageStart ''msg_1'' ''claude'', evtContentBlockStart, evtPing,
           evtDelta ''One '', evtDelta ''Hi there'',
           evtContentBlockStop, evtMessageDelta 3, evtMessageStop]
      \<and> success (final r))
   \<and> (\<exists>r. messages_stream None ''msg_1'' ''claude''
           (map rate_limited_attempt [''t1'', ''t2'', ''t3'', ''t4'']
            @ rate_limited_attempt ''t5'' # map rate_limited_attempt [''t6'', ''t7'']) = Some r
      \<and> events r =
          [evtMessageStart ''msg_1'' ''claude'', evtContentBlockStart, evtPing,
           evtContentBlockStop, evtMessageDelta 0, evtMessageStop]
      \<and> \<not> success (final r) \<and> retryCount (final r) = MAX_RETRIES)
   \<and> list_all closed_attempt run_all_rate_limited
   \<and> MAX_RETRIES \<le> length run_all_rate_limited
   \<and> messages_stream None ''msg_1'' ''claude'' run_all_rate_limited \<noteq> None"
proof -
  note inst = protocol_b_envelope [of None "''msg_1''" "''claude''" run_all_rate_limited]
  let ?fatal = "\<lparr>random_token = Some ''t2'',
                updates = [ChatToken (Some ''Hello''), ChatError (Some ''HTTP 500: upstream''),
                           ChatToken (Some ''lost'')],
                throws = None\<rparr>"
  let ?none = "\<lparr>random_token = None, updates = [], throws = None\<rparr> :: chat_attempt"
  let ?finished = "\<lparr>random_token = Some ''t2'',
                    updates = [ChatToken (Some ''Hi there''), ChatDone], throws = None\<rparr>"
  from inst [THEN conjunct2, THEN conjunct2, THEN conjunct1, rule_format,
      where pre = "[idle_attempt, rate_limited_attempt ''t1'']" and a = ?fatal and rest = "[]"
        and tid = "''t2''" and m = "Some ''HTTP 500: upstream''"]
  obtain r1 where
    r1: "messages_stream None ''msg_1'' ''claude''
           ([idle_attempt, rate_limited_attempt ''t1''] @ ?fatal # []) = Some r1"
    and e1: "events r1 =
          [evtMessageStart ''msg_1'' ''claude'', evtContentBlockStart, evtPing,
           evtDelta ''One '', evtDelta ''Hello'', evtDelta ''[Error: HTTP 500: upstream]'',
           evtContentBlockStop, evtMessageDelta 3, evtMessageStop]"
    and s1: "\<not> success (final r1)"
    by (auto simp add: attempt_simps)
  from protocol_b_envelope [of None "''msg_1''" "''claude''"
      "[idle_attempt, rate_limited_attempt ''t1''] @ ?fatal # []",
      THEN conjunct1, rule_format, OF r1]
  have c1: "count_list (map event_name (events r1)) ''content_block_start'' = 1
      \<and> count_list (map event_name (events r1)) ''content_block_stop'' = 1"
    by (elim conjE) (intro conjI)
  from inst [THEN conjunct2, THEN conjunct2, THEN conjunct2, THEN conjunct1, rule_format,
      where pre = "[rate_limited_attempt ''t1'']" and a = raising_attempt and rest = "[]"
        and tid = "''t2''" and message = "''socket hang up''"]
  have w2: "\<exists>r. messages_stream None ''msg_1'' ''claude''
           ([rate_limited_attempt ''t1''] @ raising_attempt # []) = Some r
      \<and> events r =
          [evtMessageStart ''msg_1'' ''claude'', evtContentBlockStart, evtPing,
           evtDelta ''Hi'', evtDelta ''[Error: socket hang up]'',
           evtContentBlockStop, evtMessageDelta 1, evtMessageStop]
      \<and> \<not> success (final r)"
    by (auto simp add: attempt_simps)
  from inst [THEN conjunct2, THEN conjunct2, THEN conjunct2, THEN conjunct2, THEN conjunct1,
      rule_format, where pre = "[rate_limited_attempt ''t1'']" and a = ?none and rest = "[]"]
  have w3: "\<exists>r. messages_stream None ''msg_1'' ''claude''
           ([rate_limited_attempt ''t1''] @ ?none # []) = Some r
      \<and> events r =
          [evtMessageStart ''msg_1'' ''claude'', evtContentBlockStart, evtPing,
           evtDelta ''[Error: All tokens rate limited]'',
           evtContentBlockStop, evtMessageDelta 0, evtMessageStop]
      \<and> \<not> success (final r)"
    by (auto simp add: attempt_simps)
  from inst [THEN conjunct2, THEN conjunct2, THEN conjunct2, THEN conjunct2, THEN conjunct1,
      rule_format, where pre = "[]" and a = ?none and rest = "[]"]
  have w4: "\<exists>r. messages_stream None ''msg_1'' ''claude'' ([] @ ?none # []) = Some r
      \<and> events r =
          [evtMessageStart ''msg_1'' ''claude'', evtContentBlockStart, evtPing,
           evtDelta ''[Error: No available tokens]'',
           evtContentBlockStop, evtMessageDelta 0, evtMessageStop]
      \<and> \<not> success (final r)"
    by (auto simp add: attempt_simps)
  from inst [THEN conjunct2, THEN conjunct2, THEN conjunct2, THEN conjunct2, THEN conjunct2,
      THEN conjunct1, rule_format,
      where pre = "[rate_limited_attempt ''t1'', idle_attempt]" and a = ?finished
        and rest = "[]" and tid = "''t2''"]
  have w5: "\<exists>r. messages_stream None ''msg_1'' ''claude''
           ([rate_limited_attempt ''t1'', idle_attempt] @ ?finished # []) = Some r
      \<and> events r =
          [evtMessageStart ''msg_1'' ''claude'', evtContentBlockStart, evtPing,
           evtDelta ''One '', evtDelta ''Hi there'',
           evtContentBlockStop, evtMessageDelta 3, evtMessageStop]
      \<and> success (final r)"
    by (auto simp add: attempt_simps)
  from inst [THEN conjunct2, THEN conjunct2, THEN conjunct2, THEN conjunct2, THEN conjunct2,
      THEN conjunct2, rule_format,
      where pre = "map rate_limited_attempt [''t1'', ''t2'', ''t3'', ''t4'']"
        and a = "rate_limited_attempt ''t5''"
        and rest = "map rate_limited_attempt [''t6'', ''t7'']"]
  have w6: "\<exists>r. messages_stream None ''msg_1'' ''claude''
           (map rate_limited_attempt [''t1'', ''t2'', ''t3'', ''t4'']
            @ rate_limited_attempt ''t5'' # map rate_limited_attempt [''t6'', ''t7'']) = Some r
      \<and> events r =
          [evtMessageStart ''msg_1'' ''claude'', evtContentBlockStart, evtPing,
           evtContentBlockStop, evtMessageDelta 0, evtMessageStop]
      \<and> \<not> success (final r) \<and> retryCount (final r) = MAX_RETRIES"
    by (auto simp add: attempt_simps)
  have c: "\<forall>a \<in> set run_all_rate_limited. closed_attempt a"
    by (simp add: run_all_rate_limited_def rate_limited_attempt_def closed_attempt_def)
  then have c': "list_all closed_attempt run_all_rate_limited"
    by (simp add: list_all_iff)
  have l: "MAX_RETRIES \<le> length run_all_rate_limited"
    by (simp add: run_all_rate_limited_def MAX_RETRIES_def)
  from inst [THEN conjunct2, THEN conjunct1] c l
  have t: "messages_stream None ''msg_1'' ''claude'' run_all_rate_limited \<noteq> None"
    by blast
  from r1 e1 s1 c1 have w1: "\<exists>r. messages_stream None ''msg_1'' ''claude''
           ([idle_attempt, rate_limited_attempt ''t1''] @ ?fatal # []) = Some r
      \<and> events r =
          [evtMessageStart ''msg_1'' ''claude'', evtContentBlockStart, evtPing,
           evtDelta ''One '', evtDelta ''Hello'', evtDelta ''[Error: HTTP 500: upstream]'',
           evtContentBlockStop, evtMessageDelta 3, evtMessageStop]
      \<and> \<not> success (final r)
      \<and> count_list (map event_name (events r)) ''content_block_start'' = 1
      \<and> count_list (map event_name (events r)) ''content_block_stop'' = 1"
    by (intro exI [of _ r1]) (simp only: simp_thms)
  from w1 w2 w3 w4 w5 w6 c' l t show ?thesis by (intro conjI)
qed

text \<open>
  Claim C6. \<open>incrementApiKeyUsage\<close> is called with the id of the caller's API key exactly
  when the call ends with \<open>success\<close> set, and then once; \<open>success\<close> is set only by a done
  update of some stream. This holds in the streaming and in the non-streaming branch, where
  success is also the only way to a response of status 200. Without an \<open>apiKeyInfo\<close> in the
  context there is no key id and no call.
\<close>

theorem usage_accounting:
  "(\<forall>r. messages_stream apiKeyInfo msgId rawModel script = Some r \<longrightarrow>
      length (usage_calls r) \<le> 1
      \<and> (\<forall>keyId. apiKeyInfo = Some keyId \<longrightarrow>
             usage_calls r = (if success (final r) then [keyId] else []))
      \<and> (apiKeyInfo = None \<longrightarrow> usage_calls r = [])
      \<and> (success (final r) \<longrightarrow> (\<exists>a \<in> set script. ending (updates a) = StopDone)))
   \<and> (\<forall>r. messages_nonstream apiKeyInfo msgId rawModel script = Some r \<longrightarrow>
      length (usage_calls_n r) \<le> 1
      \<and> (\<forall>keyId. apiKeyInfo = Some keyId \<longrightarrow>
             usage_calls_n r = (if success (final_n r) then [keyId] else []))
      \<and> (apiKeyInfo = None \<longrightarrow> usage_calls_n r = [])
      \<and> (success (final_n r) \<longleftrightarrow> status (response r) = 200)
      \<and> (success (final_n r) \<longrightarrow> (\<exists>a \<in> set script. ending (updates a) = StopDone)))
   \<and> ((\<forall>a \<in> set script. closed_attempt a) \<and> MAX_RETRIES \<le> length script \<longrightarrow>
        messages_stream apiKeyInfo msgId rawModel script \<noteq> None
        \<and> messages_nonstream apiKeyInfo msgId rawModel script \<noteq> None)"
proof (intro conjI allI impI)
  fix r assume a: "messages_stream apiKeyInfo msgId rawModel script = Some r"
  then obtain st where w: "stream_while script (stream_start msgId rawModel) = Some st"
    and r: "final r = st"
      "usage_calls r = (if success st
                        then (case apiKeyInfo of None \<Rightarrow> [] | Some keyId \<Rightarrow> [keyId])
                        else [])"
    by (auto simp add: messages_stream_def split: option.splits)
  from r show "length (usage_calls r) \<le> 1" by (simp split: option.splits)
  from r show "apiKeyInfo = None \<Longrightarrow> usage_calls r = []" by simp
  from r show "\<And>keyId. apiKeyInfo = Some keyId \<Longrightarrow>
                 usage_calls r = (if success (final r) then [keyId] else [])" by simp
  have "\<not> success (stream_start msgId rawModel)" by (simp add: stream_start_def)
  from stream_while_extends [OF this w] r
  show "success (final r) \<Longrightarrow> \<exists>a \<in> set script. ending (updates a) = StopDone" by blast
next
  fix r assume a: "messages_nonstream apiKeyInfo msgId rawModel script = Some r"
  from messages_nonstream_post [OF a] obtain res where
    post: "nonstream_post script nonstream_start res"
    and c: "case res of
                 Inl (resp, st) \<Rightarrow> r = \<lparr>response = resp, usage_calls_n = [], final_n = st\<rparr>
               | Inr st \<Rightarrow>
                   final_n r = st
                   \<and> (\<not> success st \<longrightarrow> usage_calls_n r = []
                          \<and> response r \<in> range (error_response 529 ''overloaded_error''))
                   \<and> (success st \<longrightarrow>
                          usage_calls_n r = (case apiKeyInfo of None \<Rightarrow> [] | Some keyId \<Rightarrow> [keyId])
                          \<and> response r = \<lparr>status = 200,
                                body = MessageBody msgId rawModel (fullContent st) 0
                                         (ceil_quarter (length (fullContent st)))\<rparr>)"
    by blast
  have all: "length (usage_calls_n r) \<le> 1
      \<and> (\<forall>keyId. apiKeyInfo = Some keyId \<longrightarrow>
             usage_calls_n r = (if success (final_n r) then [keyId] else []))
      \<and> (apiKeyInfo = None \<longrightarrow> usage_calls_n r = [])
      \<and> (success (final_n r) \<longleftrightarrow> status (response r) = 200)
      \<and> (success (final_n r) \<longrightarrow> (\<exists>a \<in> set script. ending (updates a) = StopDone))"
  proof (cases res)
    case (Inl p)
    obtain resp st where "p = (resp, st)" by (cases p)
    with Inl post c show ?thesis by (auto simp add: nonstream_post_def)
  next
    case (Inr st)
    with post c show ?thesis
      by (cases "success st")
         (auto simp add: nonstream_post_def error_response_def split: option.splits)
  qed
  from all show "length (usage_calls_n r) \<le> 1" by blast
  from all show "\<And>keyId. apiKeyInfo = Some keyId \<Longrightarrow>
                 usage_calls_n r = (if success (final_n r) then [keyId] else [])" by blast
  from all show "apiKeyInfo = None \<Longrightarrow> usage_calls_n r = []" by blast
  from all show "success (final_n r) \<longleftrightarrow> status (response r) = 200" by blast
  from all show "success (final_n r) \<Longrightarrow> \<exists>a \<in> set script. ending (updates a) = StopDone"
    by blast
next
  assume "(\<forall>a \<in> set script. closed_attempt a) \<and> MAX_RETRIES \<le> length script"
  then show "messages_stream apiKeyInfo msgId rawModel script \<noteq> None"
    using messages_stream_terminates by blast
next
  assume "(\<forall>a \<in> set script. closed_attempt a) \<and> MAX_RETRIES \<le> length script"
  then show "messages_nonstream apiKeyInfo msgId rawModel script \<noteq> None"
    using messages_nonstream_terminates by blast
qed

theorem usage_accounting_witness:
  "(\<exists>r. messages_stream (Some ''key'') ''msg_1'' ''claude'' run_retry_then_done = Some r
      \<and> success (final r) \<and> usage_calls r = [''key''])
   \<and> (\<exists>r. messages_stream (Some ''key'') ''msg_1'' ''claude'' run_pool_exhausted = Some r
      \<and> \<not> success (final r) \<and> usage_calls r = [])
   \<and> (\<exists>r. messages_nonstream (Some ''key'') ''msg_1'' ''claude'' run_retry_then_done = Some r
      \<and> success (final_n r) \<and> usage_calls_n r = [''key''] \<and> status (response r) = 200)
   \<and> (\<exists>r. messages_nonstream (Some ''key'') ''msg_1'' ''claude'' run_fatal = Some r
      \<and> \<not> success (final_n r) \<and> usage_calls_n r = [] \<and> status (response r) \<noteq> 200)
   \<and> (\<exists>r. messages_nonstream None ''msg_1'' ''claude'' run_retry_then_done = Some r
      \<and> success (final_n r) \<and> usage_calls_n r = [])
   \<and> list_all closed_attempt run_all_rate_limited
   \<and> MAX_RETRIES \<le> length run_all_rate_limited
   \<and> messages_stream (Some ''key'') ''msg_1'' ''claude'' run_all_rate_limited \<noteq> None
   \<and> messages_nonstream (Some ''key'') ''msg_1'' ''claude'' run_all_rate_limited \<noteq> None"
proof -
  obtain r1 where r1: "messages_stream (Some ''key'') ''msg_1'' ''claude'' run_retry_then_done = Some r1"
    and s1: "success (final r1)"
    by (simp add: run_retry_then_done_def run_simps)
  obtain r2 where r2: "messages_stream (Some ''key'') ''msg_1'' ''claude'' run_pool_exhausted = Some r2"
    and s2: "\<not> success (final r2)"
    by (simp add: run_pool_exhausted_def run_simps)
  obtain r3 where r3: "messages_nonstream (Some ''key'') ''msg_1'' ''claude'' run_retry_then_done = Some r3"
    and s3: "success (final_n r3)"
    by (simp add: run_retry_then_done_def run_simps)
  obtain r4 where r4: "messages_nonstream (Some ''key'') ''msg_1'' ''claude'' run_fatal = Some r4"
    and s4: "\<not> success (final_n r4)"
    by (simp add: run_fatal_def run_simps)
  obtain r5 where r5: "messages_nonstream None ''msg_1'' ''claude'' run_retry_then_done = Some r5"
    and s5: "success (final_n r5)"
    by (simp add: run_retry_then_done_def run_simps)
  have c: "\<forall>a \<in> set run_all_rate_limited. closed_attempt a"
    by (simp add: run_all_rate_limited_def rate_limited_attempt_def closed_attempt_def)
  then have c': "list_all closed_attempt run_all_rate_limited"
    by (simp add: list_all_iff)
  have l: "MAX_RETRIES \<le> length run_all_rate_limited"
    by (simp add: run_all_rate_limited_def MAX_RETRIES_def)
  from usage_accounting [of "Some ''key''" "''msg_1''" "''claude''" run_retry_then_done] r1 s1
  have "usage_calls r1 = [''key'']" by simp
  moreover
  from usage_accounting [of "Some ''key''" "''msg_1''" "''claude''" run_pool_exhausted] r2 s2
  have "usage_calls r2 = []" by simp
  moreover
  from usage_accounting [of "Some ''key''" "''msg_1''" "''claude''" run_retry_then_done] r3 s3
  have "usage_calls_n r3 = [''key''] \<and> status (response r3) = 200" by simp
  moreover
  from usage_accounting [of "Some ''key''" "''msg_1''" "''claude''" run_fatal] r4 s4
  have "usage_calls_n r4 = [] \<and> status (response r4) \<noteq> 200" by simp
  moreover
  from usage_accounting [of None "''msg_1''" "''claude''" run_retry_then_done] r5
  have "usage_calls_n r5 = []" by simp
  moreover
  from usage_accounting [of "Some ''key''" "''msg_1''" "''claude''" run_all_rate_limited] c l
  have "messages_stream (Some ''key'') ''msg_1'' ''claude'' run_all_rate_limited \<noteq> None
        \<and> messages_nonstream (Some ''key'') ''msg_1'' ''claude'' run_all_rate_limited \<noteq> None"
    by blast
  ultimately show ?thesis using r1 s1 r2 s2 r3 s3 r4 s4 r5 s5 c' l by blast
qed

text \<open>
  Claim C5. The non-streaming branch answers pool exhaustion and retry exhaustion with
  one error body of type \<open>overloaded_error\<close> and status 529, and counts no usage. Pool
  exhaustion: after any attempts \<open>pre\<close> that leave the loop running, the store has no
  token. Retry exhaustion: the call ends with \<open>retryCount = MAX_RETRIES\<close>. In general a
  call that ends without \<open>success\<close> returns an error body, never the message body, and
  status 529 goes with \<open>overloaded_error\<close> only.
\<close>

theorem nonstream_exhaustion_response:
  "(\<forall>pre a rest.
       nonstream_while pre nonstream_start = None \<and> random_token a = None \<longrightarrow>
         (\<exists>r. messages_nonstream apiKeyInfo msgId rawModel (pre @ a # rest) = Some r
            \<and> response r =
                \<lparr>status = 529,
                 body = ErrorBody ''overloaded_error''
                   (if length (excludedTokenIds (final_n r)) > 0
                    then ''All tokens rate limited (tried ''
                           @ decimal (length (excludedTokenIds (final_n r))) @ '')''
                    else ''No available tokens'')\<rparr>
            \<and> usage_calls_n r = [] \<and> \<not> success (final_n r)))
   \<and> (\<forall>r. messages_nonstream apiKeyInfo msgId rawModel script = Some r
          \<and> retryCount (final_n r) = MAX_RETRIES \<longrightarrow>
            response r =
              \<lparr>status = 529,
               body = ErrorBody ''overloaded_error''
                 (if lastError (final_n r) \<noteq> [] then lastError (final_n r)
                  else ''Failed after retries'')\<rparr>
            \<and> usage_calls_n r = [] \<and> \<not> success (final_n r))
   \<and> (\<forall>r. messages_nonstream apiKeyInfo msgId rawModel script = Some r
          \<and> \<not> success (final_n r) \<longrightarrow>
            (\<exists>msg. response r = \<lparr>status = 529, body = ErrorBody ''overloaded_error'' msg\<rparr>
                  \<or> response r = \<lparr>status = 500, body = ErrorBody ''api_error'' msg\<rparr>)
            \<and> usage_calls_n r = [])"
proof (intro conjI allI impI)
  fix pre rest :: "chat_attempt list" and a :: chat_attempt
  assume h: "nonstream_while pre nonstream_start = None \<and> random_token a = None"
  have ns: "\<not> success nonstream_start" by (simp add: nonstream_start_def)
  from nonstream_while_running [OF ns] h obtain st1 where
    s1: "\<not> success st1" and c1: "retryCount st1 < MAX_RETRIES"
    and run: "\<forall>more. nonstream_while (pre @ more) nonstream_start = nonstream_while more st1"
    by blast
  from h have "nonstream_iteration a st1 =
      Inl (error_response 529 ''overloaded_error''
                 (if length (excludedTokenIds st1) > 0
                  then ''All tokens rate limited (tried '' @ decimal (length (excludedTokenIds st1)) @ '')''
                  else ''No available tokens''), st1)"
    by (simp add: nonstream_iteration_shape)
  with c1 run have "nonstream_while (pre @ a # rest) nonstream_start =
      Some (Inl (error_response 529 ''overloaded_error''
                 (if length (excludedTokenIds st1) > 0
                  then ''All tokens rate limited (tried '' @ decimal (length (excludedTokenIds st1)) @ '')''
                  else ''No available tokens''), st1))"
    by simp
  with s1 show "\<exists>r. messages_nonstream apiKeyInfo msgId rawModel (pre @ a # rest) = Some r
            \<and> response r =
                \<lparr>status = 529,
                 body = ErrorBody ''overloaded_error''
                   (if length (excludedTokenIds (final_n r)) > 0
                    then ''All tokens rate limited (tried ''
                           @ decimal (length (excludedTokenIds (final_n r))) @ '')''
                    else ''No available tokens'')\<rparr>
            \<and> usage_calls_n r = [] \<and> \<not> success (final_n r)"
    by (simp add: messages_nonstream_def error_response_def)
next
  fix r
  assume h: "messages_nonstream apiKeyInfo msgId rawModel script = Some r
          \<and> retryCount (final_n r) = MAX_RETRIES"
  then obtain res where w: "nonstream_while script nonstream_start = Some res"
    by (auto simp add: messages_nonstream_def split: option.splits)
  have "\<not> success nonstream_start" and "retryCount nonstream_start \<le> MAX_RETRIES"
    by (simp_all add: nonstream_start_def)
  from nonstream_while_post [OF this w] have post: "nonstream_post script nonstream_start res" .
  have "(response r =
              \<lparr>status = 529,
               body = ErrorBody ''overloaded_error''
                 (if lastError (final_n r) \<noteq> [] then lastError (final_n r)
                  else ''Failed after retries'')\<rparr>
            \<and> usage_calls_n r = []) \<and> \<not> success (final_n r)"
  proof (cases res)
    case (Inl p)
    obtain resp st where "p = (resp, st)" by (cases p)
    with Inl post w h show ?thesis
      by (auto simp add: messages_nonstream_def nonstream_post_def)
  next
    case (Inr st)
    with post w h show ?thesis
      by (cases "success st")
         (auto simp add: messages_nonstream_def nonstream_post_def error_response_def)
  qed
  then show "response r =
              \<lparr>status = 529,
               body = ErrorBody ''overloaded_error''
                 (if lastError (final_n r) \<noteq> [] then lastError (final_n r)
                  else ''Failed after retries'')\<rparr>"
    and "usage_calls_n r = []" and "\<not> success (final_n r)" by blast+
next
  fix r
  assume h: "messages_nonstream apiKeyInfo msgId rawModel script = Some r
          \<and> \<not> success (final_n r)"
  from messages_nonstream_post [of apiKeyInfo msgId rawModel script r] h obtain res where
    post: "nonstream_post script nonstream_start res"
    and c: "case res of
                 Inl (resp, st) \<Rightarrow> r = \<lparr>response = resp, usage_calls_n = [], final_n = st\<rparr>
               | Inr st \<Rightarrow>
                   final_n r = st
                   \<and> (\<not> success st \<longrightarrow> usage_calls_n r = []
                          \<and> response r \<in> range (error_response 529 ''overloaded_error''))
                   \<and> (success st \<longrightarrow>
                          usage_calls_n r = (case apiKeyInfo of None \<Rightarrow> [] | Some keyId \<Rightarrow> [keyId])
                          \<and> response r = \<lparr>status = 200,
                                body = MessageBody msgId rawModel (fullContent st) 0
                                         (ceil_quarter (length (fullContent st)))\<rparr>)"
    by blast
  have "(\<exists>msg. response r = \<lparr>status = 529, body = ErrorBody ''overloaded_error'' msg\<rparr>
                  \<or> response r = \<lparr>status = 500, body = ErrorBody ''api_error'' msg\<rparr>)
            \<and> usage_calls_n r = []"
  proof (cases res)
    case (Inl p)
    obtain resp st where "p = (resp, st)" by (cases p)
    with Inl post c show ?thesis
      by (auto simp add: nonstream_post_def error_response_def)
  next
    case (Inr st)
    with post c h show ?thesis
      by (auto simp add: nonstream_post_def error_response_def)
  qed
  then show "\<exists>msg. response r = \<lparr>status = 529, body = ErrorBody ''overloaded_error'' msg\<rparr>
                  \<or> response r = \<lparr>status = 500, body = ErrorBody ''api_error'' msg\<rparr>"
    and "usage_calls_n r = []" by blast+
qed

lemma decimal_digit: "n < 10 \<Longrightarrow> decimal n = [digit n]"
  by (simp add: decimal.simps)

theorem nonstream_exhaustion_response_witness:
  "nonstream_while [rate_limited_attempt ''t1''] nonstream_start = None
   \<and> random_token \<lparr>random_token = None, updates = [], throws = None\<rparr> = None
   \<and> (\<exists>r. messages_nonstream (Some ''key'') ''msg_1'' ''claude''
              ([rate_limited_attempt ''t1'']
               @ \<lparr>random_token = None, updates = [], throws = None\<rparr> # []) = Some r
          \<and> response r = \<lparr>status = 529,
               body = ErrorBody ''overloaded_error'' ''All tokens rate limited (tried 1)''\<rparr>
          \<and> usage_calls_n r = [])
   \<and> (\<exists>r. messages_nonstream (Some ''key'') ''msg_1'' ''claude'' run_all_rate_limited = Some r
          \<and> retryCount (final_n r) = MAX_RETRIES
          \<and> response r = \<lparr>status = 529,
               body = ErrorBody ''overloaded_error'' ''Rate limited (429)''\<rparr>
          \<and> usage_calls_n r = [])
   \<and> (\<exists>r. messages_nonstream (Some ''key'') ''msg_1'' ''claude'' run_fatal = Some r
          \<and> \<not> success (final_n r)
          \<and> response r = \<lparr>status = 500, body = ErrorBody ''api_error'' ''HTTP 500: upstream''\<rparr>
          \<and> usage_calls_n r = [])"
proof -
  let ?none = "\<lparr>random_token = None, updates = [], throws = None\<rparr>"
  have p: "nonstream_while [rate_limited_attempt ''t1''] nonstream_start = None
             \<and> random_token ?none = None"
    by (simp add: rate_limited_attempt_def run_simps)
  from nonstream_exhaustion_response [of "Some ''key''" "''msg_1''" "''claude''"] p
  obtain r1 where r1: "messages_nonstream (Some ''key'') ''msg_1'' ''claude''
              ([rate_limited_attempt ''t1''] @ ?none # []) = Some r1"
    and b1: "response r1 =
                \<lparr>status = 529,
                 body = ErrorBody ''overloaded_error''
                   (if length (excludedTokenIds (final_n r1)) > 0
                    then ''All tokens rate limited (tried ''
                           @ decimal (length (excludedTokenIds (final_n r1))) @ '')''
                    else ''No available tokens'')\<rparr>"
    and u1: "usage_calls_n r1 = []"
    by blast
  from r1 have "excludedTokenIds (final_n r1) = [''t1'']"
    by (auto simp add: rate_limited_attempt_def run_simps)
  with b1 have b1': "response r1 = \<lparr>status = 529,
               body = ErrorBody ''overloaded_error'' ''All tokens rate limited (tried 1)''\<rparr>"
    by (simp add: decimal_digit digit_def)
  obtain r2 where r2: "messages_nonstream (Some ''key'') ''msg_1'' ''claude'' run_all_rate_limited = Some r2"
    and c2: "retryCount (final_n r2) = MAX_RETRIES" and l2: "lastError (final_n r2) = ''Rate limited (429)''"
    by (simp add: run_all_rate_limited_def rate_limited_attempt_def run_simps)
  from nonstream_exhaustion_response [of "Some ''key''" "''msg_1''" "''claude''" run_all_rate_limited]
    r2 c2 l2
  have b2: "response r2 = \<lparr>status = 529,
               body = ErrorBody ''overloaded_error'' ''Rate limited (429)''\<rparr>
          \<and> usage_calls_n r2 = []"
    by simp
  obtain r3 where r3: "messages_nonstream (Some ''key'') ''msg_1'' ''claude'' run_fatal = Some r3"
    and s3: "\<not> success (final_n r3)"
    and b3: "response r3 = \<lparr>status = 500, body = ErrorBody ''api_error'' ''HTTP 500: upstream''\<rparr>"
    by (simp add: run_fatal_def run_simps)
  from nonstream_exhaustion_response [of "Some ''key''" "''msg_1''" "''claude''" run_fatal] r3 s3
  have u3: "usage_calls_n r3 = []" by blast
  from p r1 b1' u1 r2 c2 b2 r3 s3 b3 u3 show ?thesis by blast
qed

section \<open>The claim about the image proxy\<close>

text \<open>
  Claim C9. The proxy only fetches URLs under \<open>https://assets.grok.com/\<close>: when the
  \<open>url\<close> parameter is missing (or empty) or does not start with that prefix, the reply is
  a 400 and no upstream request is made; and every upstream request the handler makes is
  for the \<open>url\<close> parameter itself, which then starts with the prefix, with a token of the
  store.
\<close>

theorem proxy_allow_list:
  "((url = None \<or> \<not> starts_with (or_empty url) ''https://assets.grok.com/'') \<longrightarrow>
      (\<exists>msg. reply (imagine_proxy url store fetch) = TextReply 400 msg)
      \<and> fetched (imagine_proxy url store fetch) = [])
   \<and> (\<forall>u token. (u, token) \<in> set (fetched (imagine_proxy url store fetch)) \<longrightarrow>
          url = Some u \<and> starts_with u ''https://assets.grok.com/'' \<and> store = Some token)"
proof (intro conjI allI impI)
  assume "url = None \<or> \<not> starts_with (or_empty url) ''https://assets.grok.com/''"
  then show "\<exists>msg. reply (imagine_proxy url store fetch) = TextReply 400 msg"
    and "fetched (imagine_proxy url store fetch) = []"
    by (auto simp add: imagine_proxy_def ASSET_PREFIX_def truthy_str_def or_empty_def)
next
  fix u token
  assume "(u, token) \<in> set (fetched (imagine_proxy url store fetch))"
  then show "url = Some u" and "starts_with u ''https://assets.grok.com/''"
    and "store = Some token"
    by (auto simp add: imagine_proxy_def ASSET_PREFIX_def truthy_str_def or_empty_def Let_def
          split: if_splits option.splits)
qed

theorem proxy_allow_list_witness:
  "\<not> starts_with (or_empty (Some ''https://example.org/a.png'')) ''https://assets.grok.com/''
   \<and> reply (imagine_proxy (Some ''https://example.org/a.png'')
               (Some \<lparr>row_id = ''t1'', sso = ''s'', sso_rw = ''rw''\<rparr>)
               (\<lambda>u t. \<lparr>resp_status = 200, content_type = None, resp_body = ''png''\<rparr>))
       = TextReply 400 ''Invalid URL''
   \<and> fetched (imagine_proxy (Some ''https://example.org/a.png'')
               (Some \<lparr>row_id = ''t1'', sso = ''s'', sso_rw = ''rw''\<rparr>)
               (\<lambda>u t. \<lparr>resp_status = 200, content_type = None, resp_body = ''png''\<rparr>)) = []
   \<and> (''https://assets.grok.com/users/1/a.png'', \<lparr>row_id = ''t1'', sso = ''s'', sso_rw = ''rw''\<rparr>)
       \<in> set (fetched (imagine_proxy (Some ''https://assets.grok.com/users/1/a.png'')
               (Some \<lparr>row_id = ''t1'', sso = ''s'', sso_rw = ''rw''\<rparr>)
               (\<lambda>u t. \<lparr>resp_status = 200, content_type = None, resp_body = ''png''\<rparr>)))
   \<and> starts_with ''https://assets.grok.com/users/1/a.png'' ''https://assets.grok.com/''"
proof -
  let ?t = "\<lparr>row_id = ''t1'', sso = ''s'', sso_rw = ''rw''\<rparr>"
  let ?f = "\<lambda>(u::string) (t::token_row). \<lparr>resp_status = 200, content_type = None, resp_body = ''png''\<rparr>"
  have h: "\<not> starts_with (or_empty (Some ''https://example.org/a.png'')) ''https://assets.grok.com/''"
    by (simp add: starts_with_def or_empty_def)
  have r: "reply (imagine_proxy (Some ''https://example.org/a.png'') (Some ?t) ?f)
             = TextReply 400 ''Invalid URL''"
    by (simp add: imagine_proxy_def ASSET_PREFIX_def starts_with_def truthy_str_def or_empty_def)
  have m: "(''https://assets.grok.com/users/1/a.png'', ?t)
       \<in> set (fetched (imagine_proxy (Some ''https://assets.grok.com/users/1/a.png'') (Some ?t) ?f))"
    by (simp add: imagine_proxy_def ASSET_PREFIX_def starts_with_def truthy_str_def or_empty_def
          resp_ok_def)
  from proxy_allow_list [of "Some ''https://example.org/a.png''" "Some ?t" ?f] h
  have "fetched (imagine_proxy (Some ''https://example.org/a.png'') (Some ?t) ?f) = []"
    by blast
  moreover
  from proxy_allow_list [of "Some ''https://assets.grok.com/users/1/a.png''" "Some ?t" ?f] m
  have "starts_with ''https://assets.grok.com/users/1/a.png'' ''https://assets.grok.com/''"
    by blast
  ultimately show ?thesis using h r m by blast
qed

section \<open>The retry ceiling\<close>

text \<open>One pass of the streaming loop uses at most one retry, for a rate limit only.\<close>

lemma stream_iteration_retry:
  assumes "stream_iteration a st = (st', leave)"
  shows "unretried st st'
     \<or> (\<exists>tid. random_token a = Some tid \<and> retried st st' tid
          \<and> ((\<exists>m. ending (updates a) = StopError m \<and> rate_limited_update (or_empty m))
              \<or> (\<exists>message. ending (updates a) = Unstopped \<and> throws a = Some message
                    \<and> rate_limited_exception message)))"
proof (cases "random_token a")
  case None
  with assms show ?thesis
    by (auto simp add: stream_iteration_def unretried_def Let_def)
next
  case (Some tid)
  with assms show ?thesis
    by (auto simp add: stream_iteration_def stream_try_def stream_for_await_shape forwarded_def
          unretried_def retried_def split: stop.splits option.splits if_splits)
qed

lemma stream_trace_stop [simp]:
  "\<not> retryCount st < MAX_RETRIES \<Longrightarrow> stream_trace script st = [st]"
  by (subst stream_trace.simps) simp

lemma stream_trace_Nil [simp]: "stream_trace [] st = [st]"
  by (subst stream_trace.simps) simp

lemma stream_trace_Cons [simp]:
  "retryCount st < MAX_RETRIES \<Longrightarrow>
     stream_trace (a # rest) st =
       st # (case stream_iteration a st of
               (st', leave) \<Rightarrow> if leave then [st'] else stream_trace rest st')"
  by (subst stream_trace.simps) simp

lemma generate_trace_stop [simp]:
  "\<not> (retryCount st < MAX_RETRIES \<and> int (totalCollected st) < count req) \<Longrightarrow>
     generate_trace req script st = [st, generate_finish st]"
  by (subst generate_trace.simps) (simp only: if_not_P if_False)

lemma generate_trace_Nil [simp]:
  "retryCount st < MAX_RETRIES \<and> int (totalCollected st) < count req \<Longrightarrow>
     generate_trace req [] st = [st]"
  by (subst generate_trace.simps) simp

lemma generate_trace_Cons [simp]:
  "retryCount st < MAX_RETRIES \<and> int (totalCollected st) < count req \<Longrightarrow>
     generate_trace req (a # rest) st =
       st # (case generate_iteration req a st of
               Returned st' \<Rightarrow> [st']
             | Broken st' \<Rightarrow> [generate_finish st']
             | Passed st' \<Rightarrow> generate_trace req rest st')"
  by (subst generate_trace.simps) simp

lemma stream_trace_invariant:
  "retryCount st \<le> MAX_RETRIES \<Longrightarrow> length (excludedTokenIds st) = retryCount st \<Longrightarrow>
     s \<in> set (stream_trace script st) \<Longrightarrow>
     retryCount s \<le> MAX_RETRIES \<and> length (excludedTokenIds s) = retryCount s"
proof (induction script arbitrary: st)
  case Nil
  then show ?case by (auto split: if_splits)
next
  case (Cons a rest)
  show ?case
  proof (cases "retryCount st < MAX_RETRIES")
    case False
    with Cons.prems show ?thesis by auto
  next
    case True
    obtain st1 leave where it: "stream_iteration a st = (st1, leave)"
      by (cases "stream_iteration a st")
    from stream_iteration_retry [OF it] True Cons.prems(1,2)
    have b: "retryCount st1 \<le> MAX_RETRIES" and l: "length (excludedTokenIds st1) = retryCount st1"
      by (auto simp add: unretried_def retried_def)
    from Cons.prems(3) True it
    consider "s = st" | "leave" and "s = st1" | "\<not> leave" and "s \<in> set (stream_trace rest st1)"
      by (auto split: if_splits)
    then show ?thesis
    proof cases
      case 1
      with Cons.prems show ?thesis by simp
    next
      case 2
      with b l show ?thesis by simp
    next
      case 3
      with Cons.IH [OF b l] show ?thesis by simp
    qed
  qed
qed

lemma stream_while_in_trace:
  "stream_while script st = Some st' \<Longrightarrow> st' \<in> set (stream_trace script st)"
proof (induction script arbitrary: st)
  case Nil
  then show ?case by (auto split: if_splits)
next
  case (Cons a rest)
  show ?case
  proof (cases "retryCount st < MAX_RETRIES")
    case False
    with Cons.prems show ?thesis by simp
  next
    case True
    obtain st1 leave where it: "stream_iteration a st = (st1, leave)"
      by (cases "stream_iteration a st")
    show ?thesis
    proof (cases leave)
      case True
      with \<open>retryCount st < MAX_RETRIES\<close> it Cons.prems show ?thesis by simp
    next
      case False
      with \<open>retryCount st < MAX_RETRIES\<close> it Cons.prems
      have "stream_while rest st1 = Some st'" by simp
      from Cons.IH [OF this] \<open>retryCount st < MAX_RETRIES\<close> it False show ?thesis by simp
    qed
  qed
qed

text \<open>The same for the image generation task.\<close>

lemma generate_for_await_retry:
  "generate_for_await c tid us st = e \<Longrightarrow>
     unretried st (exit_state e)
     \<or> (retried st (exit_state e) tid \<and> e = Broken (exit_state e)
          \<and> (\<exists>msg. ImgError msg \<in> set us \<and> rate_limited_image msg))"
proof (induction c tid us st arbitrary: e rule: generate_for_await.induct)
  case (1 targetCount tid st)
  then show ?case by (auto simp add: unretried_def)
next
  case (2 targetCount tid msg us st)
  then show ?case
    by (cases "rate_limited_image msg") (auto simp add: unretried_def retried_def exclude_token_def)
next
  case (3 targetCount tid job url us st)
  from 3(1) [of e] 3(2) show ?case by (auto simp add: unretried_def retried_def)
next
  case (4 targetCount tid stat us st)
  show ?case
  proof (cases "stat \<noteq> ''collecting''")
    case True
    with 4(1) [of e] 4(3) show ?thesis by (auto simp add: unretried_def retried_def)
  next
    case False
    with 4(2) [of e] 4(3) show ?thesis by (auto simp add: unretried_def retried_def)
  qed
next
  case (5 targetCount tid us st)
  then show ?case by (auto simp add: unretried_def split: if_splits)
next
  case (6 targetCount tid us st)
  from 6(1) [of e] 6(2) show ?case by auto
qed

lemma select_token_retry:
  "select_token pinned a st = (tok, st1) \<Longrightarrow> unretried st st1"
  by (auto simp add: select_token_def unretried_def Let_def split: if_splits option.splits)

lemma generate_iteration_retry:
  assumes "generate_iteration req a st = e"
  shows "unretried st (exit_state e)
     \<or> (\<exists>tid msg. retried st (exit_state e) tid \<and> e = Passed (exit_state e)
          \<and> rate_limited_image msg
          \<and> (ImgError msg \<in> set (image_updates a) \<or> image_throws a = Some msg))"
proof -
  obtain tok st1 where sel: "select_token (token_id req) a st = (tok, st1)"
    by (cases "select_token (token_id req) a st")
  note u1 = select_token_retry [OF sel]
  show ?thesis
  proof (cases tok)
    case None
    with sel assms u1 show ?thesis
      by (auto simp add: generate_iteration_def unretried_def)
  next
    case (Some tid)
    obtain e1 where fa: "generate_for_await (count req) tid (image_updates a) st1 = e1" by simp
    note r1 = generate_for_await_retry [OF fa]
    show ?thesis
    proof (cases e1)
      case (Returned st2)
      with Some sel assms fa u1 r1 show ?thesis
        by (auto simp add: generate_iteration_def unretried_def retried_def)
    next
      case (Broken st2)
      with Some sel assms fa u1 r1 show ?thesis
        by (auto simp add: generate_iteration_def unretried_def retried_def)
    next
      case (Passed st2)
      with Some sel assms fa u1 r1 show ?thesis
        by (cases "image_throws a")
           (auto simp add: generate_iteration_def unretried_def retried_def exclude_token_def
              split: if_splits)
    qed
  qed
qed

lemma generate_finish_retry: "unretried st (generate_finish st)"
  by (simp add: generate_finish_def unretried_def)

lemma generate_trace_invariant:
  "retryCount st \<le> MAX_RETRIES \<Longrightarrow> length (excludedTokenIds st) = retryCount st \<Longrightarrow>
     s \<in> set (generate_trace req script st) \<Longrightarrow>
     retryCount s \<le> MAX_RETRIES \<and> length (excludedTokenIds s) = retryCount s"
proof (induction script arbitrary: st)
  case Nil
  then show ?case
    using generate_finish_retry [of st]
    by (cases "retryCount st < MAX_RETRIES \<and> int (totalCollected st) < count req")
       (auto simp add: unretried_def)
next
  case (Cons a rest)
  show ?case
  proof (cases "retryCount st < MAX_RETRIES \<and> int (totalCollected st) < count req")
    case False
    with Cons.prems show ?thesis
      using generate_finish_retry [of st] by (auto simp add: unretried_def)
  next
    case True
    obtain e where it: "generate_iteration req a st = e" by simp
    from generate_iteration_retry [OF it] True Cons.prems(1,2)
    have b: "retryCount (exit_state e) \<le> MAX_RETRIES"
      and l: "length (excludedTokenIds (exit_state e)) = retryCount (exit_state e)"
      by (auto simp add: unretried_def retried_def)
    show ?thesis
    proof (cases e)
      case (Returned st1)
      with Cons.prems True it b l show ?thesis by auto
    next
      case (Broken st1)
      with Cons.prems True it b l show ?thesis
        using generate_finish_retry [of st1] by (auto simp add: unretried_def)
    next
      case (Passed st1)
      with Cons.prems(3) True it have "s = st \<or> s \<in> set (generate_trace req rest st1)"
        by auto
      with Cons.IH [of st1] Cons.prems(1,2) b l Passed show ?thesis by auto
    qed
  qed
qed

lemma generate_while_in_trace:
  "generate_while req script st = Some st' \<Longrightarrow> st' \<in> set (generate_trace req script st)"
proof (induction script arbitrary: st)
  case Nil
  then show ?case
    by (cases "retryCount st < MAX_RETRIES \<and> int (totalCollected st) < count req") auto
next
  case (Cons a rest)
  show ?case
  proof (cases "retryCount st < MAX_RETRIES \<and> int (totalCollected st) < count req")
    case False
    with Cons.prems show ?thesis by auto
  next
    case True
    show ?thesis
    proof (cases "generate_iteration req a st")
      case (Returned st1)
      with True Cons.prems show ?thesis by simp
    next
      case (Broken st1)
      with True Cons.prems show ?thesis by simp
    next
      case (Passed st1)
      with True Cons.prems have "generate_while req rest st1 = Some st'" by simp
      from Cons.IH [OF this] True Passed show ?thesis by simp
    qed
  qed
qed

text \<open>
  Claim C1. No call rotates credentials more than \<open>MAX_RETRIES = 5\<close> times. In the
  streaming loop of the Messages endpoint and in the loop of the image generation task the
  counter starts at 0; at every test of the loop condition and at the end it is at most 5
  and equals the number of excluded tokens; a pass of the loop changes it only by adding one
  together with excluding the token of the pass, and only for an error update or an
  exception that the handler takes for a rate limit; and with the counter at 5 the loop does
  not run another attempt, whatever attempts are left.
\<close>

theorem retry_ceiling:
  "MAX_RETRIES = 5
   \<and> retryCount (stream_start msgId rawModel) = 0 \<and> retryCount generate_start = 0
   \<and> (\<forall>s \<in> set (stream_trace script (stream_start msgId rawModel)).
          retryCount s \<le> 5 \<and> length (excludedTokenIds s) = retryCount s)
   \<and> (\<forall>s \<in> set (generate_trace req images generate_start).
          retryCount s \<le> 5 \<and> length (excludedTokenIds s) = retryCount s)
   \<and> (\<forall>r. messages_stream apiKeyInfo msgId rawModel script = Some r \<longrightarrow>
          retryCount (final r) \<le> 5)
   \<and> (\<forall>g. imagine_generate req images = Some g \<longrightarrow> retryCount g \<le> 5)
   \<and> (\<forall>st. retryCount st = MAX_RETRIES \<longrightarrow>
          stream_while script st = Some st \<and> stream_trace script st = [st])
   \<and> (\<forall>g. retryCount g = MAX_RETRIES \<longrightarrow>
          generate_while req images g = Some (generate_finish g)
          \<and> generate_trace req images g = [g, generate_finish g])
   \<and> (\<forall>a st st' leave. stream_iteration a st = (st', leave) \<longrightarrow>
          unretried st st'
          \<or> (\<exists>tid. random_token a = Some tid \<and> retried st st' tid
               \<and> ((\<exists>m. ending (updates a) = StopError m \<and> rate_limited_update (or_empty m))
                   \<or> (\<exists>message. ending (updates a) = Unstopped \<and> throws a = Some message
                         \<and> rate_limited_exception message))))
   \<and> (\<forall>a g e. generate_iteration req a g = e \<longrightarrow>
          unretried g (exit_state e)
          \<or> (\<exists>tid msg. retried g (exit_state e) tid \<and> rate_limited_image msg
                \<and> (ImgError msg \<in> set (image_updates a) \<or> image_throws a = Some msg)))"
proof (intro conjI allI impI ballI)
  show "MAX_RETRIES = 5" by (simp add: MAX_RETRIES_def)
  show "retryCount (stream_start msgId rawModel) = 0" by (simp add: stream_start_def)
  show "retryCount generate_start = 0" by (simp add: generate_start_def)
next
  fix s assume "s \<in> set (stream_trace script (stream_start msgId rawModel))"
  with stream_trace_invariant [of "stream_start msgId rawModel" s script]
  show "retryCount s \<le> 5" and "length (excludedTokenIds s) = retryCount s"
    by (simp_all add: stream_start_def MAX_RETRIES_def)
next
  fix s assume "s \<in> set (generate_trace req images generate_start)"
  with generate_trace_invariant [of generate_start s req images]
  show "retryCount s \<le> 5" and "length (excludedTokenIds s) = retryCount s"
    by (simp_all add: generate_start_def MAX_RETRIES_def)
next
  fix r assume "messages_stream apiKeyInfo msgId rawModel script = Some r"
  then have "stream_while script (stream_start msgId rawModel) = Some (final r)"
    by (auto simp add: messages_stream_def split: option.splits)
  from stream_while_in_trace [OF this]
    stream_trace_invariant [of "stream_start msgId rawModel" "final r" script]
  show "retryCount (final r) \<le> 5" by (simp add: stream_start_def MAX_RETRIES_def)
next
  fix g assume "imagine_generate req images = Some g"
  then have "generate_while req images generate_start = Some g"
    by (simp add: imagine_generate_def)
  from generate_while_in_trace [OF this]
    generate_trace_invariant [of generate_start g req images]
  show "retryCount g \<le> 5" by (simp add: generate_start_def MAX_RETRIES_def)
next
  fix st :: stream_state assume "retryCount st = MAX_RETRIES"
  then show "stream_while script st = Some st" and "stream_trace script st = [st]"
    by simp_all
next
  fix g :: generate_state assume "retryCount g = MAX_RETRIES"
  then show "generate_while req images g = Some (generate_finish g)"
    and "generate_trace req images g = [g, generate_finish g]"
    by simp_all
next
  fix a st st' leave assume "stream_iteration a st = (st', leave)"
  from stream_iteration_retry [OF this]
  show "unretried st st'
          \<or> (\<exists>tid. random_token a = Some tid \<and> retried st st' tid
               \<and> ((\<exists>m. ending (updates a) = StopError m \<and> rate_limited_update (or_empty m))
                   \<or> (\<exists>message. ending (updates a) = Unstopped \<and> throws a = Some message
                         \<and> rate_limited_exception message)))" .
next
  fix a g e assume "generate_iteration req a g = e"
  from generate_iteration_retry [OF this]
  show "unretried g (exit_state e)
          \<or> (\<exists>tid msg. retried g (exit_state e) tid \<and> rate_limited_image msg
                \<and> (ImgError msg \<in> set (image_updates a) \<or> image_throws a = Some msg))"
    by blast
qed

lemmas generate_simps =
  imagine_generate_def generate_start_def generate_iteration_def select_token_def
  generate_finish_def exclude_token_def rate_limited_image_def MAX_RETRIES_def
  truthy_str_def or_empty_def

theorem retry_ceiling_witness:
  "(\<exists>r. messages_stream None ''msg_1'' ''claude'' run_all_rate_limited = Some r
       \<and> final r \<in> set (stream_trace run_all_rate_limited (stream_start ''msg_1'' ''claude''))
       \<and> retryCount (final r) = 5
       \<and> excludedTokenIds (final r) = [''t1'', ''t2'', ''t3'', ''t4'', ''t5'']
       \<and> retryCount (final r) \<le> 5
       \<and> length (excludedTokenIds (final r)) = retryCount (final r))
   \<and> (\<exists>g. imagine_generate \<lparr>count = 10, token_id = None\<rparr> images_all_rate_limited = Some g
       \<and> retryCount g = 5
       \<and> excludedTokenIds g = [''t1'', ''t2'', ''t3'', ''t4'', ''t5'']
       \<and> retryCount g \<le> 5)
   \<and> (\<exists>st'. stream_iteration (rate_limited_attempt ''t1'') (stream_start ''msg_1'' ''claude'')
                = (st', False)
       \<and> retried (stream_start ''msg_1'' ''claude'') st' ''t1'')"
proof -
  obtain r where r: "messages_stream None ''msg_1'' ''claude'' run_all_rate_limited = Some r"
    and c: "retryCount (final r) = 5"
    and x: "excludedTokenIds (final r) = [''t1'', ''t2'', ''t3'', ''t4'', ''t5'']"
    by (simp add: run_all_rate_limited_def rate_limited_attempt_def run_simps)
  from r have "stream_while run_all_rate_limited (stream_start ''msg_1'' ''claude'') = Some (final r)"
    by (auto simp add: messages_stream_def split: option.splits)
  then have m: "final r \<in> set (stream_trace run_all_rate_limited (stream_start ''msg_1'' ''claude''))"
    by (rule stream_while_in_trace)
  note inst = retry_ceiling [of "''msg_1''" "''claude''" run_all_rate_limited
      "\<lparr>count = 10, token_id = None\<rparr>" images_all_rate_limited None]
  from inst m have b: "retryCount (final r) \<le> 5
       \<and> length (excludedTokenIds (final r)) = retryCount (final r)"
    by blast
  obtain g where g: "imagine_generate \<lparr>count = 10, token_id = None\<rparr> images_all_rate_limited = Some g"
    and gc: "retryCount g = 5"
    and gx: "excludedTokenIds g = [''t1'', ''t2'', ''t3'', ''t4'', ''t5'']"
    by (simp add: images_all_rate_limited_def rate_limited_image_attempt_def generate_simps)
  from inst g have gb: "retryCount g \<le> 5" by blast
  obtain st' leave where
    it: "stream_iteration (rate_limited_attempt ''t1'') (stream_start ''msg_1'' ''claude'') = (st', leave)"
    by (cases "stream_iteration (rate_limited_attempt ''t1'') (stream_start ''msg_1'' ''claude'')")
  then have nl: "\<not> leave" and nu: "\<not> unretried (stream_start ''msg_1'' ''claude'') st'"
    by (auto simp add: rate_limited_attempt_def unretried_def run_simps)
  from inst have step: "\<And>a st st' leave. stream_iteration a st = (st', leave) \<Longrightarrow>
          unretried st st' \<or> (\<exists>tid. random_token a = Some tid \<and> retried st st' tid)"
    by blast
  from step [OF it] nu obtain tid where "random_token (rate_limited_attempt ''t1'') = Some tid"
    and "retried (stream_start ''msg_1'' ''claude'') st' tid" by blast
  then have "retried (stream_start ''msg_1'' ''claude'') st' ''t1''"
    by (simp add: rate_limited_attempt_def)
  with it nl r m c x b g gc gx gb show ?thesis by auto
qed

section \<open>The empty pool\<close>

lemma generate_for_await_lookups:
  "lookups (exit_state (generate_for_await c tid us st)) = lookups st"
  by (induction c tid us st rule: generate_for_await.induct) (simp_all add: exclude_token_def)

lemma select_token_lookups:
  assumes "select_token pinned a st = (tok, st1)"
  shows "set (lookups st) \<subseteq> set (lookups st1)"
    and "tok \<noteq> None \<longrightarrow> (\<exists>l \<in> set (lookups st1). lookup_answer l \<noteq> None)"
    and "tok = None \<longrightarrow> written st1 = written st \<and> totalCollected st1 = totalCollected st
           \<and> closed st1 = closed st \<and> unretried st st1"
    and "length (lookups st1) \<le> length (lookups st) + 2"
  using assms
  by (auto simp add: select_token_def unretried_def Let_def split: if_splits option.splits)

lemma generate_iteration_lookups:
  "set (lookups st) \<subseteq> set (lookups (exit_state (generate_iteration req a st)))"
proof -
  obtain tok st1 where sel: "select_token (token_id req) a st = (tok, st1)"
    by (cases "select_token (token_id req) a st")
  note s = select_token_lookups(1) [OF sel]
  show ?thesis
  proof (cases tok)
    case None
    with sel s show ?thesis by (simp add: generate_iteration_def)
  next
    case (Some tid)
    from generate_for_await_lookups [of "count req" tid "image_updates a" st1]
    have "lookups (exit_state (generate_iteration req a st)) = lookups st1"
      using sel Some
      by (cases "generate_for_await (count req) tid (image_updates a) st1")
         (auto simp add: generate_iteration_def exclude_token_def split: option.splits)
    with s show ?thesis by simp
  qed
qed

lemma generate_finish_lookups: "lookups (generate_finish st) = lookups st"
  by (simp add: generate_finish_def)

lemma generate_while_lookups:
  "generate_while req script st = Some g \<Longrightarrow> set (lookups st) \<subseteq> set (lookups g)"
proof (induction script arbitrary: st)
  case Nil
  then show ?case by (auto simp add: generate_finish_lookups split: if_splits)
next
  case (Cons a rest)
  show ?case
  proof (cases "retryCount st < MAX_RETRIES \<and> int (totalCollected st) < count req")
    case False
    with Cons.prems show ?thesis by (auto simp add: generate_finish_lookups)
  next
    case True
    note it = generate_iteration_lookups [of st req a]
    show ?thesis
    proof (cases "generate_iteration req a st")
      case (Returned st1)
      with True Cons.prems it show ?thesis by auto
    next
      case (Broken st1)
      with True Cons.prems it show ?thesis by (auto simp add: generate_finish_lookups)
    next
      case (Passed st1)
      with True Cons.prems have "generate_while req rest st1 = Some g" by simp
      from Cons.IH [OF this] it Passed show ?thesis by auto
    qed
  qed
qed

text \<open>A task whose every call of the store was answered with no token, and that made one.\<close>

lemma generate_empty_pool:
  assumes run: "imagine_generate req images = Some g"
    and some: "lookups g \<noteq> []"
    and none: "list_all (\<lambda>l. lookup_answer l = None) (lookups g)"
  shows "g = generate_start
           \<lparr>written := [ev_error ''No available tokens. Please import tokens first.''],
            closed := True, lookups := lookups g\<rparr>
         \<and> length (lookups g) \<le> 2"
proof -
  from run have w: "generate_while req images generate_start = Some g"
    by (simp add: imagine_generate_def)
  show ?thesis
  proof (cases "retryCount generate_start < MAX_RETRIES
                 \<and> int (totalCollected generate_start) < count req")
    case False
    with w have "g = generate_finish generate_start" by auto
    with some show ?thesis by (simp add: generate_finish_def generate_start_def)
  next
    case True
    show ?thesis
    proof (cases images)
      case Nil
      with True w show ?thesis by simp
    next
      case (Cons a rest)
      obtain tok st1 where sel: "select_token (token_id req) a generate_start = (tok, st1)"
        by (cases "select_token (token_id req) a generate_start")
      have sub: "set (lookups st1) \<subseteq> set (lookups g)"
      proof -
        have "set (lookups st1) \<subseteq> set (lookups (exit_state (generate_iteration req a generate_start)))"
        proof (cases tok)
          case None
          with sel show ?thesis by (simp add: generate_iteration_def)
        next
          case (Some tid)
          from generate_for_await_lookups [of "count req" tid "image_updates a" st1]
          have "lookups (exit_state (generate_iteration req a generate_start)) = lookups st1"
            using sel Some
            by (cases "generate_for_await (count req) tid (image_updates a) st1")
               (auto simp add: generate_iteration_def exclude_token_def split: option.splits)
          then show ?thesis by simp
        qed
        moreover have "set (lookups (exit_state (generate_iteration req a generate_start)))
                         \<subseteq> set (lookups g)"
        proof (cases "generate_iteration req a generate_start")
          case (Returned s)
          with True Cons w show ?thesis by auto
        next
          case (Broken s)
          with True Cons w show ?thesis by (auto simp add: generate_finish_lookups)
        next
          case (Passed s)
          with True Cons w have "generate_while req rest s = Some g" by simp
          from generate_while_lookups [OF this] Passed show ?thesis by simp
        qed
        ultimately show ?thesis by blast
      qed
      have "tok = None"
      proof (rule ccontr)
        assume "tok \<noteq> None"
        with select_token_lookups(2) [OF sel] obtain l where
          "l \<in> set (lookups st1)" and "lookup_answer l \<noteq> None" by blast
        with sub none show False by (auto simp add: list_all_iff)
      qed
      with select_token_lookups(3) [OF sel]
      have st1: "written st1 = [] \<and> totalCollected st1 = 0 \<and> \<not> closed st1
                   \<and> retryCount st1 = 0 \<and> excludedTokenIds st1 = []"
        by (simp add: generate_start_def unretried_def)
      from \<open>tok = None\<close> sel st1 have
        "generate_iteration req a generate_start =
           Broken (st1\<lparr>written := [ev_error ''No available tokens. Please import tokens first.'']\<rparr>)"
        by (simp add: generate_iteration_def)
      with True Cons w have
        "g = generate_finish (st1\<lparr>written := [ev_error ''No available tokens. Please import tokens first.'']\<rparr>)"
        by simp
      with st1 select_token_lookups(4) [OF sel] show ?thesis
        by (simp add: generate_finish_def generate_start_def)
    qed
  qed
qed

text \<open>
  Claim C4, as the code has it. When the store has no token at the first lookup of a call,
  the call ends at once with one pool-exhaustion error and no content: the image generation
  task writes the single event \<open>error\<close> and closes the stream, with nothing collected and
  no retry used; the non-streaming Messages branch returns status 529 with
  \<open>overloaded_error\<close>, with empty content and no usage call, whatever attempts would
  follow. The image task asks the store only while the target count is not reached: with a
  count of zero or less it makes no lookup and closes the stream without any event.
\<close>

theorem empty_pool:
  "(\<forall>g. imagine_generate req images = Some g \<and> lookups g \<noteq> []
          \<and> list_all (\<lambda>l. lookup_answer l = None) (lookups g) \<longrightarrow>
        written g = [ev_error ''No available tokens. Please import tokens first.'']
        \<and> closed g \<and> totalCollected g = 0 \<and> retryCount g = 0 \<and> length (lookups g) \<le> 2)
   \<and> (\<forall>a rest. 0 < count req \<and> pinned_answer a = None \<and> random_answer a = None \<longrightarrow>
        (\<exists>g. imagine_generate req (a # rest) = Some g
           \<and> written g = [ev_error ''No available tokens. Please import tokens first.'']
           \<and> closed g \<and> lookups g \<noteq> []
           \<and> list_all (\<lambda>l. lookup_answer l = None) (lookups g)))
   \<and> (count req \<le> 0 \<longrightarrow>
        imagine_generate req images = Some (generate_start\<lparr>closed := True\<rparr>))
   \<and> (\<forall>a rest. random_token a = None \<longrightarrow>
        messages_nonstream apiKeyInfo msgId rawModel (a # rest) =
          Some \<lparr>response = \<lparr>status = 529,
                             body = ErrorBody ''overloaded_error'' ''No available tokens''\<rparr>,
                usage_calls_n = [], final_n = nonstream_start\<rparr>)"
proof (intro conjI allI impI)
  fix g
  assume h: "imagine_generate req images = Some g \<and> lookups g \<noteq> []
          \<and> list_all (\<lambda>l. lookup_answer l = None) (lookups g)"
  then have g: "g = generate_start
           \<lparr>written := [ev_error ''No available tokens. Please import tokens first.''],
            closed := True, lookups := lookups g\<rparr>"
    using generate_empty_pool by blast
  have w: "written g = [ev_error ''No available tokens. Please import tokens first.'']"
    by (subst g) simp
  have c: "closed g" by (subst g) simp
  have t: "totalCollected g = 0" by (subst g) (simp add: generate_start_def)
  have r: "retryCount g = 0" by (subst g) (simp add: generate_start_def)
  from w show "written g = [ev_error ''No available tokens. Please import tokens first.'']" .
  from c show "closed g" .
  from t show "totalCollected g = 0" .
  from r show "retryCount g = 0" .
  from h show "length (lookups g) \<le> 2"
    using generate_empty_pool by blast
next
  fix a :: image_attempt and rest :: "image_attempt list"
  assume "0 < count req \<and> pinned_answer a = None \<and> random_answer a = None"
  then show "\<exists>g. imagine_generate req (a # rest) = Some g
           \<and> written g = [ev_error ''No available tokens. Please import tokens first.'']
           \<and> closed g \<and> lookups g \<noteq> []
           \<and> list_all (\<lambda>l. lookup_answer l = None) (lookups g)"
    by (simp add: imagine_generate_def generate_start_def generate_iteration_def
          select_token_def generate_finish_def MAX_RETRIES_def Let_def)
next
  assume "count req \<le> 0"
  then show "imagine_generate req images = Some (generate_start\<lparr>closed := True\<rparr>)"
    by (simp add: imagine_generate_def generate_start_def generate_finish_def)
next
  fix a :: chat_attempt and rest :: "chat_attempt list"
  assume "random_token a = None"
  then show "messages_nonstream apiKeyInfo msgId rawModel (a # rest) =
          Some \<lparr>response = \<lparr>status = 529,
                             body = ErrorBody ''overloaded_error'' ''No available tokens''\<rparr>,
                usage_calls_n = [], final_n = nonstream_start\<rparr>"
    by (simp add: messages_nonstream_def nonstream_iteration_shape nonstream_start_def
          error_response_def MAX_RETRIES_def)
qed

theorem empty_pool_witness:
  "(\<exists>g. imagine_generate \<lparr>count = 4, token_id = Some ''pinned''\<rparr>
            [\<lparr>pinned_answer = None, random_answer = None,
              image_updates = [ImgImage ''job'' ''https://assets.grok.com/a.png'', ImgDone],
              image_throws = None\<rparr>] = Some g
       \<and> lookups g = [GetToken ''pinned'' None, GetRandomToken [] None]
       \<and> list_all (\<lambda>l. lookup_answer l = None) (lookups g)
       \<and> written g = [ev_error ''No available tokens. Please import tokens first.'']
       \<and> closed g \<and> totalCollected g = 0 \<and> retryCount g = 0)
   \<and> random_token \<lparr>random_token = None, updates = [ChatToken (Some ''Hello''), ChatDone],
                     throws = None\<rparr> = None
   \<and> messages_nonstream (Some ''key'') ''msg_1'' ''claude''
        (\<lparr>random_token = None, updates = [ChatToken (Some ''Hello''), ChatDone], throws = None\<rparr>
         # run_retry_then_done) =
          Some \<lparr>response = \<lparr>status = 529,
                             body = ErrorBody ''overloaded_error'' ''No available tokens''\<rparr>,
                usage_calls_n = [], final_n = nonstream_start\<rparr>
   \<and> count \<lparr>count = 0, token_id = None\<rparr> \<le> 0
   \<and> imagine_generate \<lparr>count = 0, token_id = None\<rparr> [] = Some (generate_start\<lparr>closed := True\<rparr>)"
proof -
  let ?req = "\<lparr>count = 4, token_id = Some ''pinned''\<rparr>"
  let ?a = "\<lparr>pinned_answer = None, random_answer = None,
              image_updates = [ImgImage ''job'' ''https://assets.grok.com/a.png'', ImgDone],
              image_throws = None\<rparr>"
  let ?c = "\<lparr>random_token = None, updates = [ChatToken (Some ''Hello''), ChatDone], throws = None\<rparr>"
  obtain g where g: "imagine_generate ?req [?a] = Some g"
    and l: "lookups g = [GetToken ''pinned'' None, GetRandomToken [] None]"
    by (simp add: generate_simps Let_def)
  from l have n: "lookups g \<noteq> []" and a: "list_all (\<lambda>l. lookup_answer l = None) (lookups g)"
    by simp_all
  from empty_pool [of ?req "[?a]" apiKeyInfo msgId rawModel] g n a
  have 1: "written g = [ev_error ''No available tokens. Please import tokens first.'']
        \<and> closed g \<and> totalCollected g = 0 \<and> retryCount g = 0"
    by blast
  have r: "random_token ?c = None" by simp
  from empty_pool [of ?req "[?a]" "Some ''key''" "''msg_1''" "''claude''"] r
  have 2: "messages_nonstream (Some ''key'') ''msg_1'' ''claude'' (?c # run_retry_then_done) =
          Some \<lparr>response = \<lparr>status = 529,
                             body = ErrorBody ''overloaded_error'' ''No available tokens''\<rparr>,
                usage_calls_n = [], final_n = nonstream_start\<rparr>"
    by blast
  have z: "count \<lparr>count = 0, token_id = None\<rparr> \<le> 0" by simp
  from empty_pool [of "\<lparr>count = 0, token_id = None\<rparr>" "[]" apiKeyInfo msgId rawModel] z
  have 3: "imagine_generate \<lparr>count = 0, token_id = None\<rparr> [] = Some (generate_start\<lparr>closed := True\<rparr>)"
    by blast
  from g l a 1 r 2 z 3 show ?thesis by blast
qed

text \<open>
  The claim as stated fails for a request of zero images against an empty pool: the task
  ends without any event, so without the pool-exhaustion error.
\<close>

theorem empty_pool_counterexample:
  "imagine_generate \<lparr>count = 0, token_id = None\<rparr>
     [\<lparr>pinned_answer = None, random_answer = None, image_updates = [], image_throws = None\<rparr>]
     = Some (generate_start\<lparr>closed := True\<rparr>)
   \<and> written (generate_start\<lparr>closed := True\<rparr>) = []
   \<and> lookups (generate_start\<lparr>closed := True\<rparr>) = []"
  by (simp add: imagine_generate_def generate_start_def generate_finish_def)

section \<open>Properties of the image edit stream\<close>

subsection \<open>Splitting into lines\<close>

lemma split_nl_nonempty [simp]: "split_nl s \<noteq> []"
  by (induction s) simp_all

lemma split_nl_append:
  "split_nl (xs @ ys) = butlast (split_nl xs) @ split_nl (last (split_nl xs) @ ys)"
proof (induction xs)
  case Nil
  show ?case by simp
next
  case (Cons c cs)
  show ?case
  proof (cases "c = newline")
    case True
    with Cons show ?thesis by simp
  next
    case False
    obtain l ls where s: "split_nl cs = l # ls"
      by (cases "split_nl cs") simp_all
    show ?thesis
    proof (cases ls)
      case Nil
      with False s Cons show ?thesis by simp
    next
      case (Cons l' ls')
      with False s Cons.IH show ?thesis by simp
    qed
  qed
qed

lemma split_nl_last: "split_nl (last (split_nl s)) = [last (split_nl s)]"
proof (induction s)
  case Nil
  show ?case by simp
next
  case (Cons c cs)
  show ?case
  proof (cases "c = newline")
    case True
    with Cons show ?thesis by simp
  next
    case False
    obtain l ls where s: "split_nl cs = l # ls"
      by (cases "split_nl cs") simp_all
    with False Cons show ?thesis by (cases ls) simp_all
  qed
qed

text \<open>Feeding two chunks is feeding their concatenation.\<close>

lemma feed_feed: "feed h c2 (feed h c1 bs) = feed h (c1 @ c2) bs"
proof -
  have "split_nl (fst bs @ c1 @ c2)
          = butlast (split_nl (fst bs @ c1)) @ split_nl (last (split_nl (fst bs @ c1)) @ c2)"
    using split_nl_append [of "fst bs @ c1" c2] by simp
  then show ?thesis
    by (simp add: feed_def Let_def butlast_append)
qed

lemma read_loop_concat:
  "split_nl (fst bs) = [fst bs] \<Longrightarrow> read_loop h cs bs = feed h (concat cs) bs"
proof (induction cs arbitrary: bs)
  case Nil
  then show ?case by (simp add: feed_def)
next
  case (Cons c cs)
  have "split_nl (fst (feed h c bs)) = [fst (feed h c bs)]"
    by (simp add: feed_def Let_def split_nl_last)
  from Cons.IH [OF this] show ?case by (simp add: feed_feed)
qed

lemma read_loop_lines:
  "read_loop h cs ([], st) =
     (last (split_nl (concat cs)),
      foldl (\<lambda>st line. h line st) st (complete_lines (concat cs)))"
  using read_loop_concat [of "([], st)" h cs] by (simp add: feed_def complete_lines_def Let_def)

subsection \<open>Deduplication\<close>

lemma dedupe_into_append:
  "dedupe_into seen (xs @ ys) = dedupe_into (dedupe_into seen xs) ys"
  by (induction xs arbitrary: seen) simp_all

lemma dedupe_into_set: "set (dedupe_into seen xs) = set seen \<union> set xs"
  by (induction xs arbitrary: seen) auto

lemma dedupe_into_distinct: "distinct seen \<Longrightarrow> distinct (dedupe_into seen xs)"
  by (induction xs arbitrary: seen) simp_all

lemma image_urls_append [simp]: "image_urls (us @ vs) = image_urls us @ image_urls vs"
  by (induction us rule: image_urls.induct) simp_all

lemma image_indexes_append [simp]:
  "image_indexes (us @ vs) = image_indexes us @ image_indexes vs"
  by (induction us rule: image_indexes.induct) simp_all

lemma emit_new_collected:
  "collectedUrls (emit_new noted urls st) = dedupe_into (collectedUrls st) urls"
  by (induction urls arbitrary: st) simp_all

lemma emit_new_lineCount [simp]: "lineCount (emit_new noted urls st) = lineCount st"
  by (induction urls arbitrary: st) simp_all

lemma emit_new_consistent: "consistent st \<Longrightarrow> consistent (emit_new noted urls st)"
proof (induction urls arbitrary: st)
  case Nil
  then show ?case by simp
next
  case (Cons url urls)
  show ?case
  proof (cases "url \<in> set (collectedUrls st)")
    case True
    with Cons show ?thesis by simp
  next
    case False
    let ?st = "st\<lparr>collectedUrls := collectedUrls st @ [url],
                yielded := yielded st
                  @ (if noted then [EditDebug (NoteDirectUrl url)] else [])
                  @ [EditImage url (length (collectedUrls st))]\<rparr>"
    from Cons.prems False have "consistent ?st"
      by (simp add: consistent_def)
    from Cons.IH [OF this] False show ?thesis by simp
  qed
qed

lemma yield_consistent:
  "consistent st \<Longrightarrow> image_urls [u] = [] \<Longrightarrow> image_indexes [u] = [] \<Longrightarrow> consistent (yield u st)"
  by (simp add: consistent_def yield_def)

lemma yield_collected [simp]: "collectedUrls (yield u st) = collectedUrls st"
  by (simp add: yield_def)

lemma yield_lineCount [simp]: "lineCount (yield u st) = lineCount st"
  by (simp add: yield_def)

lemma field_notes_images [simp]:
  "image_urls (field_notes m) = []" "image_indexes (field_notes m) = []"
  by (simp_all add: field_notes_def split: option.splits json.splits)

subsection \<open>One line\<close>

lemma handle_line_v2_collected:
  "collectedUrls (handle_line_v2 parse line st)
     = dedupe_into (collectedUrls st) (line_urls_v2 parse line)"
  by (simp add: handle_line_v2_def line_urls_v2_def handle_response_def model_response_block_def
        emit_new_collected dedupe_into_append Let_def
        split: option.splits list.splits)

lemma handle_line_v2_consistent:
  "consistent st \<Longrightarrow> consistent (handle_line_v2 parse line st)"
proof -
  assume c: "consistent st"
  have lc: "\<And>n. consistent (st\<lparr>lineCount := n\<rparr>)"
    using c by (simp add: consistent_def)
  have y: "\<And>s n. consistent s \<Longrightarrow> consistent (yield (EditDebug n) s)"
    by (rule yield_consistent) simp_all
  have mb: "\<And>s m. consistent s \<Longrightarrow> consistent (model_response_block m s)"
  proof -
    fix s m assume "consistent s"
    then have "consistent (s\<lparr>yielded := yielded s @ field_notes m
                         @ [EditDebug (NoteFound (length (collectImages m)))]
                         @ (case collectImages m of [] \<Rightarrow> [] | u # us \<Rightarrow> [EditDebug (NoteFirstUrl u)])\<rparr>)"
      by (simp add: consistent_def split: list.splits)
    then show "consistent (model_response_block m s)"
      by (simp add: model_response_block_def Let_def emit_new_consistent)
  qed
  have hr: "\<And>s r. consistent s \<Longrightarrow> consistent (handle_response r s)"
    by (simp add: handle_response_def Let_def emit_new_consistent mb yield_consistent
          split: option.splits)
  from c show ?thesis
    by (simp add: handle_line_v2_def Let_def lc y hr split: option.splits)
qed

lemma handle_line_v1_collected:
  "collectedUrls (handle_line_v1 parse matches line st)
     = dedupe_into (collectedUrls st) (line_urls_v1 parse matches line)"
  by (simp add: handle_line_v1_def line_urls_v1_def handle_response_v1_def
        emit_new_collected Let_def split: option.splits)

lemma handle_line_v1_consistent:
  "consistent st \<Longrightarrow> consistent (handle_line_v1 parse matches line st)"
  by (simp add: handle_line_v1_def handle_response_v1_def Let_def emit_new_consistent
        yield_consistent split: option.splits)

subsection \<open>All lines\<close>

lemma foldl_collected:
  assumes "\<And>line st. collectedUrls (h line st) = dedupe_into (collectedUrls st) (urls line)"
  shows "collectedUrls (foldl (\<lambda>st line. h line st) st ls)
           = dedupe_into (collectedUrls st) (concat (map urls ls))"
  by (induction ls arbitrary: st) (simp_all add: assms dedupe_into_append)

lemma foldl_consistent:
  assumes "\<And>line st. consistent st \<Longrightarrow> consistent (h line st)"
  shows "consistent st \<Longrightarrow> consistent (foldl (\<lambda>st line. h line st) st ls)"
  by (induction ls arbitrary: st) (simp_all add: assms)

subsection \<open>The claims about the stream decoder\<close>

lemma decode_v2_lines:
  "decode_v2 parse b st0 =
     (let st = foldl (\<lambda>st line. handle_line_v2 parse line st) st0
                 (complete_lines (concat (body_chunks b)))
      in case read_error b of
           None \<Rightarrow> (yielded (finish_v2 st), None)
         | Some e \<Rightarrow> (yielded st, Some e))"
  by (simp add: decode_v2_def read_loop_lines)

lemma decode_v1_lines:
  "decode_v1 parse matches b =
     (let st = foldl (\<lambda>st line. handle_line_v1 parse matches line st) decode_start
                 (complete_lines (concat (body_chunks b)))
      in case read_error b of
           None \<Rightarrow> (yielded (finish_v1 st), None)
         | Some e \<Rightarrow> (yielded st, Some e))"
  by (simp add: decode_v1_def read_loop_lines)

lemma handle_line_v2_unparsed:
  "parse line = None \<Longrightarrow>
     handle_line_v2 parse line st =
       (if is_blank line then st
        else st\<lparr>lineCount := lineCount st + 1,
                yielded := yielded st @
                  (if lineCount st < 2
                   then [EditDebug (NoteUnparseable (lineCount st + 1) (take 200 line))]
                   else [])\<rparr>)"
  by (simp add: handle_line_v2_def yield_def Let_def)

text \<open>
  Claim C8, as the code has it. Line framing does not depend on how the body is cut into
  chunks: after any chunks, the buffer holds what follows the last newline, never handled,
  and the lines handled are the newline-terminated lines of the whole text, in order; so
  two ways of cutting the same text give the same updates. A line that does not parse
  leaves the collected URLs alone and does not stop the loop. In the earlier version it
  yields nothing; in the current version it is counted and, when it is the first or second
  line that is not blank, reported by one \<open>debug\<close> update, the only update it yields.
\<close>

theorem line_framing:
  "(\<forall>cs st. read_loop (handle_line_v2 parse) cs ([], st) =
      (last (split_nl (concat cs)),
       foldl (\<lambda>st line. handle_line_v2 parse line st) st (complete_lines (concat cs))))
   \<and> (\<forall>cs st. read_loop (handle_line_v1 parse matches) cs ([], st) =
      (last (split_nl (concat cs)),
       foldl (\<lambda>st line. handle_line_v1 parse matches line st) st (complete_lines (concat cs))))
   \<and> (\<forall>cs cs' e st. concat cs = concat cs' \<longrightarrow>
        decode_v2 parse \<lparr>body_chunks = cs, read_error = e\<rparr> st
          = decode_v2 parse \<lparr>body_chunks = cs', read_error = e\<rparr> st
        \<and> decode_v1 parse matches \<lparr>body_chunks = cs, read_error = e\<rparr>
          = decode_v1 parse matches \<lparr>body_chunks = cs', read_error = e\<rparr>)
   \<and> (\<forall>line st. parse line = None \<longrightarrow> handle_line_v1 parse matches line st = st)
   \<and> (\<forall>line st. parse line = None \<longrightarrow>
        collectedUrls (handle_line_v2 parse line st) = collectedUrls st
        \<and> yielded (handle_line_v2 parse line st) =
            yielded st @
              (if \<not> is_blank line \<and> lineCount st < 2
               then [EditDebug (NoteUnparseable (lineCount st + 1) (take 200 line))]
               else []))"
proof (intro conjI allI impI)
  fix cs st
  show "read_loop (handle_line_v2 parse) cs ([], st) =
      (last (split_nl (concat cs)),
       foldl (\<lambda>st line. handle_line_v2 parse line st) st (complete_lines (concat cs)))"
    by (rule read_loop_lines)
  show "read_loop (handle_line_v1 parse matches) cs ([], st) =
      (last (split_nl (concat cs)),
       foldl (\<lambda>st line. handle_line_v1 parse matches line st) st (complete_lines (concat cs)))"
    by (rule read_loop_lines)
next
  fix cs cs' :: "string list" and e :: "string option" and st :: decode_state
  assume "concat cs = concat cs'"
  then show "decode_v2 parse \<lparr>body_chunks = cs, read_error = e\<rparr> st
          = decode_v2 parse \<lparr>body_chunks = cs', read_error = e\<rparr> st"
    and "decode_v1 parse matches \<lparr>body_chunks = cs, read_error = e\<rparr>
          = decode_v1 parse matches \<lparr>body_chunks = cs', read_error = e\<rparr>"
    by (simp_all add: decode_v2_lines decode_v1_lines)
next
  fix line st assume "parse line = None"
  then show "handle_line_v1 parse matches line st = st"
    by (simp add: handle_line_v1_def)
next
  fix line st assume p: "parse line = None"
  then show "collectedUrls (handle_line_v2 parse line st) = collectedUrls st"
    by (simp add: handle_line_v2_unparsed)
  from p show "yielded (handle_line_v2 parse line st) =
            yielded st @
              (if \<not> is_blank line \<and> lineCount st < 2
               then [EditDebug (NoteUnparseable (lineCount st + 1) (take 200 line))]
               else [])"
    by (simp add: handle_line_v2_unparsed)
qed

theorem line_framing_witness:
  "concat [''P'' @ [newline] @ ''A'', [newline] @ ''x'' @ [newline] @ ''A'' @ [newline] @ ''A'']
     = concat [''P'' @ [newline] @ ''A'' @ [newline] @ ''x'' @ [newline] @ ''A'' @ [newline] @ ''A'']
   \<and> decode_v2 demo_parse
        \<lparr>body_chunks = [''P'' @ [newline] @ ''A'', [newline] @ ''x'' @ [newline] @ ''A'' @ [newline] @ ''A''],
         read_error = None\<rparr> decode_start
      = decode_v2 demo_parse
        \<lparr>body_chunks = [''P'' @ [newline] @ ''A'' @ [newline] @ ''x'' @ [newline] @ ''A'' @ [newline] @ ''A''],
         read_error = None\<rparr> decode_start
   \<and> complete_lines (''P'' @ [newline] @ ''A'' @ [newline] @ ''x'' @ [newline] @ ''A'' @ [newline] @ ''A'')
      = [''P'', ''A'', ''x'', ''A'']
   \<and> demo_parse ''x'' = None
   \<and> handle_line_v1 demo_parse (\<lambda>s. []) ''x'' decode_start = decode_start
   \<and> yielded (handle_line_v2 demo_parse ''x'' (decode_start\<lparr>lineCount := 2\<rparr>)) = []
   \<and> collectedUrls (handle_line_v2 demo_parse ''x'' (decode_start\<lparr>lineCount := 2\<rparr>)) = []"
proof -
  let ?cs = "[''P'' @ [newline] @ ''A'', [newline] @ ''x'' @ [newline] @ ''A'' @ [newline] @ ''A'']"
  let ?cs' = "[''P'' @ [newline] @ ''A'' @ [newline] @ ''x'' @ [newline] @ ''A'' @ [newline] @ ''A'']"
  have c: "concat ?cs = concat ?cs'" by simp
  have l: "complete_lines (''P'' @ [newline] @ ''A'' @ [newline] @ ''x'' @ [newline] @ ''A'' @ [newline] @ ''A'')
      = [''P'', ''A'', ''x'', ''A'']"
    by (simp add: complete_lines_def newline_def)
  have p: "demo_parse ''x'' = None" by (simp add: demo_parse_def)
  note inst = line_framing [of demo_parse "\<lambda>s. []"]
  from inst c have 1: "decode_v2 demo_parse \<lparr>body_chunks = ?cs, read_error = None\<rparr> decode_start
      = decode_v2 demo_parse \<lparr>body_chunks = ?cs', read_error = None\<rparr> decode_start"
    by blast
  from inst p have 2: "handle_line_v1 demo_parse (\<lambda>s. []) ''x'' decode_start = decode_start"
    by blast
  from inst p have "collectedUrls (handle_line_v2 demo_parse ''x'' (decode_start\<lparr>lineCount := 2\<rparr>))
      = collectedUrls (decode_start\<lparr>lineCount := 2\<rparr>)
    \<and> yielded (handle_line_v2 demo_parse ''x'' (decode_start\<lparr>lineCount := 2\<rparr>)) =
            yielded (decode_start\<lparr>lineCount := 2\<rparr>) @
              (if \<not> is_blank ''x'' \<and> lineCount (decode_start\<lparr>lineCount := 2\<rparr>) < 2
               then [EditDebug (NoteUnparseable (lineCount (decode_start\<lparr>lineCount := 2\<rparr>) + 1) (take 200 ''x''))]
               else [])"
    by blast
  then have 3: "yielded (handle_line_v2 demo_parse ''x'' (decode_start\<lparr>lineCount := 2\<rparr>)) = []
      \<and> collectedUrls (handle_line_v2 demo_parse ''x'' (decode_start\<lparr>lineCount := 2\<rparr>)) = []"
    by (simp add: decode_start_def)
  from c 1 l p 2 3 show ?thesis by blast
qed

text \<open>
  The claim as stated fails in the current version: an unparseable first line yields a
  \<open>debug\<close> update, which the image edit handler forwards to the client.
\<close>

theorem line_framing_counterexample:
  "never_parses ''x'' = None
   \<and> handle_line_v2 never_parses ''x'' decode_start
      = \<lparr>collectedUrls = [], lineCount = 1, yielded = [EditDebug (NoteUnparseable 1 ''x'')]\<rparr>
   \<and> decode_v2 never_parses \<lparr>body_chunks = [''x'' @ [newline]], read_error = None\<rparr> decode_start
      = ([EditDebug (NoteUnparseable 1 ''x''), EditDebug (NoteStreamDone 1 0),
          EditError ''No images generated (parsed 1 lines)''], None)
   \<and> edit_written (exit_state (edit_for_await 4 ''t1'' [EditDebug (NoteUnparseable 1 ''x'')] 0 edit_start))
      = [ev_debug]"
  by (simp add: never_parses_def handle_line_v2_def decode_v2_lines complete_lines_def
        newline_def is_blank_def js_space_def decode_start_def yield_def finish_v2_def
        decimal_digit digit_def edit_start_def Let_def)

subsection \<open>The claim about repeated URLs\<close>

lemma finish_v2_images [simp]:
  "image_urls (yielded (finish_v2 st)) = image_urls (yielded st)"
  "image_indexes (yielded (finish_v2 st)) = image_indexes (yielded st)"
  by (simp_all add: finish_v2_def yield_def Let_def)

lemma finish_v1_images [simp]:
  "image_urls (yielded (finish_v1 st)) = image_urls (yielded st)"
  "image_indexes (yielded (finish_v1 st)) = image_indexes (yielded st)"
  by (simp_all add: finish_v1_def yield_def)

lemma dedupe_into_length: "length (dedupe_into [] xs) = card (set xs)"
proof -
  have "distinct (dedupe_into [] xs)" by (simp add: dedupe_into_distinct)
  then have "length (dedupe_into [] xs) = card (set (dedupe_into [] xs))"
    by (simp add: distinct_card)
  then show ?thesis by (simp add: dedupe_into_set)
qed

text \<open>The images of one run of the current decoder, from consistent variables.\<close>

lemma decode_v2_images:
  assumes "consistent st0" and "decode_v2 parse b st0 = (us, raised)"
  shows "image_urls us = dedupe_into (collectedUrls st0)
           (concat (map (line_urls_v2 parse) (complete_lines (concat (body_chunks b)))))"
    and "distinct (image_urls us)"
    and "image_indexes us = [0 ..< length (image_urls us)]"
proof -
  let ?st = "foldl (\<lambda>st line. handle_line_v2 parse line st) st0
               (complete_lines (concat (body_chunks b)))"
  have c: "consistent ?st"
    by (rule foldl_consistent) (simp_all add: handle_line_v2_consistent assms(1))
  have u: "collectedUrls ?st = dedupe_into (collectedUrls st0)
           (concat (map (line_urls_v2 parse) (complete_lines (concat (body_chunks b)))))"
    by (rule foldl_collected [OF handle_line_v2_collected])
  from assms(2) have "image_urls us = image_urls (yielded ?st)"
    and "image_indexes us = image_indexes (yielded ?st)"
    by (auto simp add: decode_v2_lines Let_def split: option.splits)
  with c u show "image_urls us = dedupe_into (collectedUrls st0)
           (concat (map (line_urls_v2 parse) (complete_lines (concat (body_chunks b)))))"
    and "distinct (image_urls us)"
    and "image_indexes us = [0 ..< length (image_urls us)]"
    by (simp_all add: consistent_def)
qed

lemma decode_v1_images:
  assumes "decode_v1 parse matches b = (us, raised)"
  shows "image_urls us = dedupe_into []
           (concat (map (line_urls_v1 parse matches) (complete_lines (concat (body_chunks b)))))"
    and "distinct (image_urls us)"
    and "image_indexes us = [0 ..< length (image_urls us)]"
proof -
  let ?st = "foldl (\<lambda>st line. handle_line_v1 parse matches line st) decode_start
               (complete_lines (concat (body_chunks b)))"
  have "consistent decode_start" by (simp add: consistent_def decode_start_def)
  then have c: "consistent ?st"
    by (intro foldl_consistent) (simp_all add: handle_line_v1_consistent)
  have u: "collectedUrls ?st = dedupe_into (collectedUrls decode_start)
           (concat (map (line_urls_v1 parse matches) (complete_lines (concat (body_chunks b)))))"
    by (rule foldl_collected [OF handle_line_v1_collected])
  from assms have "image_urls us = image_urls (yielded ?st)"
    and "image_indexes us = image_indexes (yielded ?st)"
    by (auto simp add: decode_v1_lines Let_def split: option.splits)
  with c u show "image_urls us = dedupe_into []
           (concat (map (line_urls_v1 parse matches) (complete_lines (concat (body_chunks b)))))"
    and "distinct (image_urls us)"
    and "image_indexes us = [0 ..< length (image_urls us)]"
    by (simp_all add: consistent_def decode_start_def)
qed

text \<open>The images of one call of the generator.\<close>

lemma streamImageEdit_images:
  assumes "streamImageEdit parse upstream pr urls c = (payload, us, raised)"
  shows "distinct (image_urls us)" and "image_indexes us = [0 ..< length (image_urls us)]"
    and "\<And>code t b. upstream = FetchAnswers code t (Some b) \<Longrightarrow> 200 \<le> code \<Longrightarrow> code \<le> 299 \<Longrightarrow>
           image_urls us = dedupe_into []
             (concat (map (line_urls_v2 parse) (complete_lines (concat (body_chunks b)))))"
proof -
  let ?intro = "[EditDebug NoteImageRefs, EditDebug NoteAttachments, EditDebug NoteOverride]"
  have cons: "\<And>code. consistent (decode_start\<lparr>yielded := ?intro @ [EditDebug (NoteStatus code)]\<rparr>)"
    by (simp add: consistent_def decode_start_def)
  have all: "distinct (image_urls us) \<and> image_indexes us = [0 ..< length (image_urls us)]
      \<and> (\<forall>code t b. upstream = FetchAnswers code t (Some b) \<and> 200 \<le> code \<and> code \<le> 299 \<longrightarrow>
           image_urls us = dedupe_into []
             (concat (map (line_urls_v2 parse) (complete_lines (concat (body_chunks b))))))"
  proof (cases upstream)
    case (FetchRaises e)
    with assms show ?thesis by (auto simp add: streamImageEdit_def Let_def)
  next
    case (FetchAnswers code t ob)
    show ?thesis
    proof (cases "200 \<le> code \<and> code \<le> 299")
      case False
      with FetchAnswers assms show ?thesis by (auto simp add: streamImageEdit_def Let_def)
    next
      case True
      show ?thesis
      proof (cases ob)
        case None
        with True FetchAnswers assms show ?thesis by (auto simp add: streamImageEdit_def Let_def)
      next
        case (Some b)
        with True FetchAnswers assms
        have d: "decode_v2 parse b (decode_start\<lparr>yielded := ?intro @ [EditDebug (NoteStatus code)]\<rparr>)
                   = (us, raised)"
          by (auto simp add: streamImageEdit_def Let_def split: prod.splits)
        from decode_v2_images [OF cons d] Some FetchAnswers show ?thesis
          by (simp add: decode_start_def)
      qed
    qed
  qed
  from all show "distinct (image_urls us)" and "image_indexes us = [0 ..< length (image_urls us)]"
    by blast+
  fix code t b
  assume "upstream = FetchAnswers code t (Some b)" and "200 \<le> code" and "code \<le> 299"
  with all show "image_urls us = dedupe_into []
             (concat (map (line_urls_v2 parse) (complete_lines (concat (body_chunks b)))))"
    by blast
qed

text \<open>The handler writes one image event for each image update it takes up.\<close>

lemma edit_image_urls_append [simp]:
  "edit_image_urls (es @ fs) = edit_image_urls es @ edit_image_urls fs"
  by (induction es rule: edit_image_urls.induct) simp_all

lemma edit_for_await_images:
  "\<exists>k. edit_image_urls (edit_written (exit_state (edit_for_await c tid us n st)))
         = edit_image_urls (edit_written st) @ image_urls (take k us)"
proof (induction c tid us n st rule: edit_for_await.induct)
  case (1 c tid imageCount st)
  show ?case by simp
next
  case (2 c tid msg us imageCount st)
  show ?case by (intro exI [of _ 0]) (simp add: exclude_edit_token_def)
next
  case (3 c tid url i us imageCount st)
  then obtain k where
    "edit_image_urls (edit_written (exit_state (edit_for_await c tid us (imageCount + 1)
        (st\<lparr>edit_written := edit_written st @
              [ev_edit_image url i, ev_edit_collecting (imageCount + 1) (clamped_count c)]\<rparr>))))
     = edit_image_urls (edit_written (st\<lparr>edit_written := edit_written st @
              [ev_edit_image url i, ev_edit_collecting (imageCount + 1) (clamped_count c)]\<rparr>))
       @ image_urls (take k us)" by blast
  then show ?case by (intro exI [of _ "Suc k"]) simp
next
  case (4 c tid idx p us imageCount st)
  then obtain k where
    "edit_image_urls (edit_written (exit_state (edit_for_await c tid us imageCount
        (st\<lparr>edit_written := edit_written st @ [ev_stage ''generating'']\<rparr>))))
     = edit_image_urls (edit_written (st\<lparr>edit_written := edit_written st @ [ev_stage ''generating'']\<rparr>))
       @ image_urls (take k us)" by blast
  then show ?case by (intro exI [of _ "Suc k"]) simp
next
  case (5 c tid us imageCount st)
  show ?case by (intro exI [of _ 0]) simp
next
  case (6 c tid n us imageCount st)
  then obtain k where
    "edit_image_urls (edit_written (exit_state (edit_for_await c tid us imageCount
        (st\<lparr>edit_written := edit_written st @ [ev_debug]\<rparr>))))
     = edit_image_urls (edit_written (st\<lparr>edit_written := edit_written st @ [ev_debug]\<rparr>))
       @ image_urls (take k us)" by blast
  then show ?case by (intro exI [of _ "Suc k"]) simp
qed

text \<open>
  Claim C3, as the code has it. Within one call of the generator no URL is yielded twice:
  its image updates carry exactly the URLs that the complete lines of the body hand to the
  loops over URLs, each once, in the order of first discovery and numbered from 0, so their
  number is the number of distinct URLs found. This holds for the current and for the
  earlier decoder, whatever the upstream repeats. The image edit handler writes one image
  event for each image update it takes up and compares nothing itself; the list of
  collected URLs belongs to one call of the generator, so a retry starts from an empty list.
\<close>

theorem urls_once_per_stream:
  "(\<forall>upstream pr urls c payload us raised.
      streamImageEdit parse upstream pr urls c = (payload, us, raised) \<longrightarrow>
        distinct (image_urls us) \<and> image_indexes us = [0 ..< length (image_urls us)])
   \<and> (\<forall>code t b pr urls c payload us raised.
      streamImageEdit parse (FetchAnswers code t (Some b)) pr urls c = (payload, us, raised)
      \<and> 200 \<le> code \<and> code \<le> 299 \<longrightarrow>
        image_urls us = dedupe_into []
          (concat (map (line_urls_v2 parse) (complete_lines (concat (body_chunks b)))))
        \<and> length (image_urls us) =
            card (set (concat (map (line_urls_v2 parse) (complete_lines (concat (body_chunks b)))))))
   \<and> (\<forall>b us raised.
      decode_v1 parse matches b = (us, raised) \<longrightarrow>
        image_urls us = dedupe_into []
          (concat (map (line_urls_v1 parse matches) (complete_lines (concat (body_chunks b)))))
        \<and> length (image_urls us) =
            card (set (concat (map (line_urls_v1 parse matches)
                                (complete_lines (concat (body_chunks b))))))
        \<and> distinct (image_urls us) \<and> image_indexes us = [0 ..< length (image_urls us)])
   \<and> (\<forall>c tid us n st.
        \<exists>k. edit_image_urls (edit_written (exit_state (edit_for_await c tid us n st)))
              = edit_image_urls (edit_written st) @ image_urls (take k us))"
proof (intro conjI allI impI)
  fix upstream pr urls c payload us raised
  assume "streamImageEdit parse upstream pr urls c = (payload, us, raised)"
  from streamImageEdit_images(1,2) [OF this]
  show "distinct (image_urls us)" and "image_indexes us = [0 ..< length (image_urls us)]" .
next
  fix code t b pr urls c payload us raised
  assume a: "streamImageEdit parse (FetchAnswers code t (Some b)) pr urls c = (payload, us, raised)
      \<and> 200 \<le> code \<and> code \<le> 299"
  with streamImageEdit_images(3) [of parse "FetchAnswers code t (Some b)" pr urls c payload us raised code t b]
  show u: "image_urls us = dedupe_into []
          (concat (map (line_urls_v2 parse) (complete_lines (concat (body_chunks b)))))"
    by blast
  show "length (image_urls us) =
            card (set (concat (map (line_urls_v2 parse) (complete_lines (concat (body_chunks b))))))"
    by (subst u) (rule dedupe_into_length)
next
  fix b us raised
  assume a: "decode_v1 parse matches b = (us, raised)"
  from decode_v1_images [OF a]
  show u: "image_urls us = dedupe_into []
          (concat (map (line_urls_v1 parse matches) (complete_lines (concat (body_chunks b)))))"
    and "distinct (image_urls us)" and "image_indexes us = [0 ..< length (image_urls us)]" .
  show "length (image_urls us) =
            card (set (concat (map (line_urls_v1 parse matches)
                                (complete_lines (concat (body_chunks b))))))"
    by (subst u) (rule dedupe_into_length)
next
  fix c tid us n st
  show "\<exists>k. edit_image_urls (edit_written (exit_state (edit_for_await c tid us n st)))
              = edit_image_urls (edit_written st) @ image_urls (take k us)"
    by (rule edit_for_await_images)
qed

lemmas edit_simps =
  streamImageEdit_def edit_payload_of_def decode_v2_lines complete_lines_def newline_def
  handle_line_v2_def handle_response_def model_response_block_def field_notes_def
  finish_v2_def yield_def decode_start_def is_blank_def js_space_def demo_parse_def
  response_line_def ok_body_def targetKeys_def starts_with_def or_zero_def Let_def

theorem urls_once_per_stream_witness:
  "(\<exists>payload us.
      streamImageEdit demo_parse
        (FetchAnswers 200 [] (Some \<lparr>body_chunks = [''P'' @ [newline] @ ''A'', [newline] @ ''x'' @ [newline] @ ''A'' @ [newline]],
                                    read_error = None\<rparr>))
        [] [''https://assets.grok.com/users/1/f''] 4 = (payload, us, None)
      \<and> (200::nat) \<le> 200 \<and> (200::nat) \<le> 299
      \<and> image_urls us = [''https://assets.grok.com/a.png'']
      \<and> concat (map (line_urls_v2 demo_parse)
            (complete_lines (concat [''P'' @ [newline] @ ''A'', [newline] @ ''x'' @ [newline] @ ''A'' @ [newline]])))
          = [''https://assets.grok.com/a.png'', ''https://assets.grok.com/a.png'',
             ''https://assets.grok.com/a.png'', ''https://assets.grok.com/a.png'']
      \<and> distinct (image_urls us) \<and> image_indexes us = [0 ..< length (image_urls us)])
   \<and> (\<exists>us. decode_v1 demo_parse (\<lambda>s. [])
               \<lparr>body_chunks = [''P'' @ [newline] @ ''A'', [newline] @ ''x'' @ [newline] @ ''A'' @ [newline]],
                read_error = None\<rparr> = (us, None)
        \<and> distinct (image_urls us))"
proof -
  let ?b = "\<lparr>body_chunks = [''P'' @ [newline] @ ''A'', [newline] @ ''x'' @ [newline] @ ''A'' @ [newline]],
             read_error = None\<rparr>"
  obtain payload us where
    s: "streamImageEdit demo_parse (FetchAnswers 200 [] (Some ?b)) []
          [''https://assets.grok.com/users/1/f''] 4 = (payload, us, None)"
    and i: "image_urls us = [''https://assets.grok.com/a.png'']"
    by (simp add: edit_simps)
  have l: "concat (map (line_urls_v2 demo_parse)
            (complete_lines (concat [''P'' @ [newline] @ ''A'', [newline] @ ''x'' @ [newline] @ ''A'' @ [newline]])))
          = [''https://assets.grok.com/a.png'', ''https://assets.grok.com/a.png'',
             ''https://assets.grok.com/a.png'', ''https://assets.grok.com/a.png'']"
    by (simp add: line_urls_v2_def edit_simps)
  note inst = urls_once_per_stream [of demo_parse "\<lambda>s. []"]
  from inst [THEN conjunct1, rule_format, OF s]
  have 1: "distinct (image_urls us) \<and> image_indexes us = [0 ..< length (image_urls us)]" .
  obtain vs raised where v: "decode_v1 demo_parse (\<lambda>s. []) ?b = (vs, raised)"
    by (cases "decode_v1 demo_parse (\<lambda>s. []) ?b")
  then have r: "raised = None" by (auto simp add: decode_v1_def Let_def)
  from inst [THEN conjunct2, THEN conjunct2, THEN conjunct1, rule_format, OF v]
  have 2: "distinct (image_urls vs)" by (elim conjE)
  from s i l 1 v r 2 show ?thesis by auto
qed

text \<open>
  The claim as stated fails across a retry: the first token's stream yields an image and
  then breaks with an error that the handler takes for a rate limit; the second token's
  stream yields the same URL, and the client receives it twice.
\<close>

theorem urls_once_counterexample:
  "forwarded_urls
     (imagine_img2img demo_parse \<lparr>count = 4, token_id = None, prompt = []\<rparr>
        [edit_attempt_with ''t1'' (ok_body [''A'' @ [newline]] (Some ''429 Too Many Requests'')),
         edit_attempt_with ''t2'' (ok_body [''A'' @ [newline]] None)])
     = [''https://assets.grok.com/a.png'', ''https://assets.grok.com/a.png'']"
  by code_simp

subsection \<open>The claim about the clamped image count\<close>

lemma streamImageEdit_payload:
  "streamImageEdit parse upstream pr urls k = (payload, us, raised)
     \<Longrightarrow> imageGenerationCount payload = k"
  by (auto simp add: streamImageEdit_def edit_payload_of_def Let_def
           split: chat_fetch.splits if_splits option.splits prod.splits)

lemma exclude_edit_token_clamp:
  "clamp_kept c st \<Longrightarrow> clamp_kept c (exclude_edit_token tid st)"
  by (simp add: clamp_kept_def exclude_edit_token_def)

lemma edit_catch_clamp:
  "clamp_kept c st \<Longrightarrow> clamp_kept c (exit_state (edit_catch tid msg st))"
  by (simp add: clamp_kept_def edit_catch_def exclude_edit_token_def)

lemma edit_for_await_clamp:
  "clamp_kept c st \<Longrightarrow> clamp_kept c (exit_state (edit_for_await c tid us n st))"
proof (induction c tid us n st rule: edit_for_await.induct)
  case (2 c tid msg us imageCount st)
  then show ?case by (simp add: clamp_kept_def exclude_edit_token_def)
next
  case (3 c tid url i us imageCount st)
  show ?case
    unfolding edit_for_await.simps
    by (rule 3(1)) (use 3(2) in \<open>simp add: clamp_kept_def clamped_count_def\<close>)
next
  case (4 c tid idx p us imageCount st)
  show ?case
    unfolding edit_for_await.simps
    by (rule 4(1)) (use 4(2) in \<open>simp add: clamp_kept_def\<close>)
next
  case (6 c tid n us imageCount st)
  show ?case
    unfolding edit_for_await.simps
    by (rule 6(1)) (use 6(2) in \<open>simp add: clamp_kept_def\<close>)
qed (simp_all add: clamp_kept_def)

lemma select_edit_token_clamp:
  "select_edit_token p a st = (t, st1) \<Longrightarrow> clamp_kept c st \<Longrightarrow> clamp_kept c st1"
  by (auto simp add: select_edit_token_def clamp_kept_def Let_def
           split: if_splits option.splits)

lemma edit_iteration_clamp:
  assumes "clamp_kept (count req) st"
  shows "clamp_kept (count req) (exit_state (edit_iteration parse req a st))"
proof -
  obtain t st1 where s: "select_edit_token (token_id req) a st = (t, st1)"
    by (cases "select_edit_token (token_id req) a st")
  from select_edit_token_clamp [OF s assms] have k1: "clamp_kept (count req) st1" .
  show ?thesis
  proof (cases t)
    case None
    with s k1 show ?thesis by (simp add: edit_iteration_def clamp_kept_def)
  next
    case (Some tid)
    let ?st2 = "st1\<lparr>edit_written := edit_written st1 @ [ev_stage ''uploading'']\<rparr>"
    from k1 have k2: "clamp_kept (count req) ?st2" by (simp add: clamp_kept_def)
    show ?thesis
    proof (cases "upload a")
      case (UploadRaises msg)
      with s Some edit_catch_clamp [OF k2, of tid msg] show ?thesis
        by (simp add: edit_iteration_def)
    next
      case (Uploaded u)
      show ?thesis
      proof (cases u)
        case None
        from k2 have "clamp_kept (count req) (?st2\<lparr>edit_written := edit_written ?st2 @ [ev_debug]\<rparr>)"
          by (simp add: clamp_kept_def)
        from edit_catch_clamp [OF this, of tid missing_file_uri] s Some Uploaded None
        show ?thesis by (simp add: edit_iteration_def)
      next
        case (Some fileUri)
        obtain payload us raised where
          e: "streamImageEdit parse (chat a) (prompt req) [asset_url fileUri]
                (clamped_count (count req)) = (payload, us, raised)"
          by (cases "streamImageEdit parse (chat a) (prompt req) [asset_url fileUri]
                (clamped_count (count req))")
        let ?st3 = "?st2\<lparr>edit_written := edit_written ?st2
                                    @ [ev_debug, ev_debug, ev_stage ''generating''],
                                  posted := posted ?st2 @ [payload]\<rparr>"
        from streamImageEdit_payload [OF e] k2 have k3: "clamp_kept (count req) ?st3"
          by (simp add: clamp_kept_def clamped_count_def)
        note k4 = edit_for_await_clamp [OF k3, of tid us 0]
        show ?thesis
        proof (cases "edit_for_await (count req) tid us 0 ?st3")
          case (Returned st4)
          with k4 s \<open>t = Some tid\<close> Uploaded Some e show ?thesis
            by (simp add: edit_iteration_def)
        next
          case (Broken st4)
          with k4 s \<open>t = Some tid\<close> Uploaded Some e show ?thesis
            by (simp add: edit_iteration_def)
        next
          case (Passed st4)
          with k4 have k5: "clamp_kept (count req) st4" by simp
          show ?thesis
          proof (cases raised)
            case None
            with Passed k5 s \<open>t = Some tid\<close> Uploaded Some e show ?thesis
              by (simp add: edit_iteration_def)
          next
            case (Some msg)
            with Passed edit_catch_clamp [OF k5, of tid msg] s \<open>t = Some tid\<close> Uploaded
              \<open>u = Some fileUri\<close> e show ?thesis
              by (simp add: edit_iteration_def)
          qed
        qed
      qed
    qed
  qed
qed

lemma clamp_kept_closed:
  "clamp_kept c (st\<lparr>edit_closed := b\<rparr>) = clamp_kept c st"
  by (simp add: clamp_kept_def)

lemma edit_while_clamp:
  "edit_while parse req script st = Some st' \<Longrightarrow> clamp_kept (count req) st
     \<Longrightarrow> clamp_kept (count req) st'"
proof (induction script arbitrary: st)
  case Nil
  then show ?case by (auto simp add: clamp_kept_closed split: if_splits)
next
  case (Cons a rest)
  show ?case
  proof (cases "retryCount st < MAX_RETRIES")
    case False
    with Cons.prems show ?thesis by (auto simp add: clamp_kept_closed)
  next
    case True
    note it = edit_iteration_clamp [OF Cons.prems(2), of parse a]
    show ?thesis
    proof (cases "edit_iteration parse req a st")
      case (Returned st1)
      with True Cons.prems(1) it show ?thesis by auto
    next
      case (Broken st1)
      with True Cons.prems(1) it show ?thesis by (auto simp add: clamp_kept_closed)
    next
      case (Passed st1)
      with True Cons.prems(1) have "edit_while parse req rest st1 = Some st'" by simp
      from Cons.IH [OF this] it Passed show ?thesis by simp
    qed
  qed
qed

lemma edit_for_await_min:
  "edit_for_await (min c 4) tid us n st = edit_for_await c tid us n st"
proof (induction us arbitrary: n st)
  case Nil
  show ?case by simp
next
  case (Cons u us)
  then show ?case by (cases u) (simp_all add: clamped_count_def)
qed

lemma edit_iteration_min:
  "edit_iteration parse (req\<lparr>count := min (count req) 4\<rparr>) a st = edit_iteration parse req a st"
proof -
  have 1: "count (req\<lparr>count := min (count req) 4\<rparr>) = min (count req) 4"
    "prompt (req\<lparr>count := min (count req) 4\<rparr>) = prompt req"
    "token_id (req\<lparr>count := min (count req) 4\<rparr>) = token_id req"
    by simp_all
  have 2: "clamped_count (min (count req) 4) = clamped_count (count req)"
    by (simp add: clamped_count_def)
  show ?thesis
    unfolding edit_iteration_def 1 2 edit_for_await_min by (rule refl)
qed

lemma edit_while_Cons:
  "edit_while parse req (a # rest) st =
     (if retryCount st < MAX_RETRIES then
        (case edit_iteration parse req a st of
           Returned st' \<Rightarrow> Some st'
         | Broken st' \<Rightarrow> Some (st'\<lparr>edit_closed := True\<rparr>)
         | Passed st' \<Rightarrow> edit_while parse req rest st')
      else Some (st\<lparr>edit_closed := True\<rparr>))"
  by simp

lemma edit_while_min:
  "edit_while parse (req\<lparr>count := min (count req) 4\<rparr>) script st = edit_while parse req script st"
proof (induction script arbitrary: st)
  case Nil
  show ?case by simp
next
  case (Cons a rest)
  show ?case
  proof (cases "retryCount st < MAX_RETRIES")
    case False
    then show ?thesis by simp
  next
    case True
    show ?thesis
      unfolding edit_while_Cons edit_iteration_min Cons.IH by (rule refl)
  qed
qed

text \<open>
  Claim C10, as the code has it. For a request with count \<open>c\<close>, every request that the
  image edit handler posts upstream asks for \<open>min(c, 4)\<close> images, and every progress event
  of status collecting gives \<open>min(c, 4)\<close> as its target; the events it writes are those of
  the same request made with count \<open>min(c, 4)\<close>, so nothing in them tells of the clamp. The
  handler itself counts the images it forwards without bounding them: how many image events
  an attempt writes is decided by the upstream's answer.
\<close>

theorem img2img_count_clamped:
  "(\<forall>upstream pr urls k payload us raised.
      streamImageEdit parse upstream pr urls k = (payload, us, raised) \<longrightarrow>
        imageGenerationCount payload = k)
   \<and> (\<forall>req script st.
        imagine_img2img parse req script = Some st \<longrightarrow>
          list_all (\<lambda>p. imageGenerationCount p = min (count req) 4) (posted st)
          \<and> list_all (collecting_target (min (count req) 4)) (edit_written st))
   \<and> (\<forall>req script.
        imagine_img2img parse (req\<lparr>count := min (count req) 4\<rparr>) script
          = imagine_img2img parse req script)"
proof (intro conjI allI impI)
  fix upstream pr urls k payload us raised
  assume "streamImageEdit parse upstream pr urls k = (payload, us, raised)"
  then show "imageGenerationCount payload = k" by (rule streamImageEdit_payload)
next
  fix req :: edit_request and script st
  assume a: "imagine_img2img parse req script = Some st"
  have "clamp_kept (count req) edit_start" by (simp add: clamp_kept_def edit_start_def)
  with a have "clamp_kept (count req) st"
    unfolding imagine_img2img_def by (rule edit_while_clamp)
  then show "list_all (\<lambda>p. imageGenerationCount p = min (count req) 4) (posted st)"
    and "list_all (collecting_target (min (count req) 4)) (edit_written st)"
    by (simp_all add: clamp_kept_def)
next
  fix req :: edit_request and script
  show "imagine_img2img parse (req\<lparr>count := min (count req) 4\<rparr>) script
          = imagine_img2img parse req script"
    unfolding imagine_img2img_def by (rule edit_while_min)
qed

theorem img2img_count_clamped_witness:
  "(\<exists>st. imagine_img2img demo_parse \<lparr>count = 10, token_id = None, prompt = []\<rparr>
            [edit_attempt_with ''t1'' (ok_body [''A'' @ [newline]] None)] = Some st
         \<and> map imageGenerationCount (posted st) = [4]
         \<and> list_all (collecting_target 4) (edit_written st)
         \<and> edit_written st =
             [ev_stage ''uploading'', ev_debug, ev_debug, ev_stage ''generating'',
              ev_debug, ev_debug, ev_debug, ev_debug, ev_debug, ev_debug, ev_debug, ev_debug,
              ev_edit_image ''https://assets.grok.com/a.png'' 0, ev_edit_collecting 1 4,
              ev_debug, ev_done])"
proof -
  let ?req = "\<lparr>count = 10, token_id = None, prompt = []\<rparr> :: edit_request"
  let ?script = "[edit_attempt_with ''t1'' (ok_body [''A'' @ [newline]] None)]"
  let ?st = "\<lparr>excludedTokenIds = [], retryCount = 0,
      edit_written =
        [ev_stage ''uploading'', ev_debug, ev_debug, ev_stage ''generating'',
         ev_debug, ev_debug, ev_debug, ev_debug, ev_debug, ev_debug, ev_debug, ev_debug,
         ev_edit_image ''https://assets.grok.com/a.png'' 0, ev_edit_collecting 1 4,
         ev_debug, ev_done],
      edit_closed = True,
      edit_lookups = [GetRandomToken [] (Some ''t1'')],
      posted = [\<lparr>payload_message = ''Generate new variations based on this image'',
                 imageReferences = [''https://assets.grok.com/users/1/f''],
                 imageGenerationCount = 4\<rparr>]\<rparr>"
  have r: "imagine_img2img demo_parse ?req ?script = Some ?st"
    by code_simp
  from img2img_count_clamped [of demo_parse, THEN conjunct2, THEN conjunct1, rule_format, OF r]
  have "list_all (collecting_target 4) (edit_written ?st)" by simp
  with r show ?thesis by simp
qed

text \<open>
  The bound on the images served is not the handler's: asked for ten images, it requests
  four, and when the upstream's answer names five URLs it forwards all five in one attempt.
\<close>

theorem img2img_count_counterexample:
  "forwarded_urls
     (imagine_img2img demo_parse \<lparr>count = 10, token_id = None, prompt = []\<rparr>
        [edit_attempt_with ''t1'' (ok_body [''F'' @ [newline]] None)])
     = [''https://assets.grok.com/1.png'', ''https://assets.grok.com/2.png'',
        ''https://assets.grok.com/3.png'', ''https://assets.grok.com/4.png'',
        ''https://assets.grok.com/5.png'']"
  by code_simp

end
